theory Spec2Isabelle
  imports Main
begin

section \<open>The numeric backend: N-dimensional buffers\<close>

text \<open>
  The engine (\<^verbatim>\<open>Aria/core\<close>) computes on numpy arrays. A buffer is a shape and its
  elements in row-major order. The element type is any commutative ring (\<open>int\<close> for
  Python's unbounded integers, a machine word for \<^verbatim>\<open>int64\<close>); rounding of floating
  point numbers is outside this model.
\<close>

datatype error = TypeError | AttributeError | ValueError | IndexError | AxisError

datatype 'a ndarray = NDArray (shape: "nat list") (flat: "'a list")

definition wf_array :: "'a ndarray \<Rightarrow> bool" where
  "wf_array a = (length (flat a) = prod_list (shape a))"

text \<open>All multi-indices of a shape, in row-major order, and the offset of one of them.\<close>

fun indices :: "nat list \<Rightarrow> nat list list" where
  "indices [] = [[]]"
| "indices (n # s) = concat (map (\<lambda>i. map ((#) i) (indices s)) [0..<n])"

fun ravel :: "nat list \<Rightarrow> nat list \<Rightarrow> nat" where
  "ravel (n # s) (i # is) = i * prod_list s + ravel s is"
| "ravel _ _ = 0"

definition get :: "'a ndarray \<Rightarrow> nat list \<Rightarrow> 'a" where
  "get a i = flat a ! ravel (shape a) i"

definition tabulate :: "nat list \<Rightarrow> (nat list \<Rightarrow> 'a) \<Rightarrow> 'a ndarray" where
  "tabulate s f = NDArray s (map f (indices s))"

text \<open>\<^verbatim>\<open>np.array(c)\<close> for a Python scalar: a buffer of shape \<^verbatim>\<open>()\<close>.\<close>

definition np_scalar :: "'a \<Rightarrow> 'a ndarray" where
  "np_scalar c = NDArray [] [c]"

text \<open>
  Broadcasting of two shapes: the shorter one is padded with leading ones, then every
  pair of dimensions must agree or contain a one. \<open>bidx s i\<close> is the index into an operand
  of shape \<open>s\<close> that the broadcast result reads at its index \<open>i\<close>.
\<close>

definition np_broadcast_shapes :: "nat list \<Rightarrow> nat list \<Rightarrow> nat list option" where
  "np_broadcast_shapes s0 s1 =
     (let n = max (length s0) (length s1);
          p0 = replicate (n - length s0) 1 @ s0;
          p1 = replicate (n - length s1) 1 @ s1
      in if list_all2 (\<lambda>a b. a = b \<or> a = 1 \<or> b = 1) p0 p1
         then Some (map2 (\<lambda>a b. if a = 1 then b else a) p0 p1)
         else None)"

definition bidx :: "nat list \<Rightarrow> nat list \<Rightarrow> nat list" where
  "bidx s i = map2 (\<lambda>d k. if d = 1 then 0 else k) s (drop (length i - length s) i)"

definition np_binop :: "('a \<Rightarrow> 'a \<Rightarrow> 'a) \<Rightarrow> 'a ndarray \<Rightarrow> 'a ndarray \<Rightarrow> error + 'a ndarray" where
  "np_binop f a b =
     (case np_broadcast_shapes (shape a) (shape b) of
        None \<Rightarrow> Inl ValueError
      | Some s \<Rightarrow> Inr (tabulate s (\<lambda>i. f (get a (bidx (shape a) i)) (get b (bidx (shape b) i)))))"

definition np_add :: "'a::comm_ring_1 ndarray \<Rightarrow> 'a ndarray \<Rightarrow> error + 'a ndarray" where
  "np_add = np_binop (+)"

definition np_mul :: "'a::comm_ring_1 ndarray \<Rightarrow> 'a ndarray \<Rightarrow> error + 'a ndarray" where
  "np_mul = np_binop (*)"

text \<open>
  \<^verbatim>\<open>x ** c\<close> for a Python integer \<^verbatim>\<open>c\<close>; numpy refuses a negative integer power of
  an integer array.
\<close>

definition np_pow :: "'a::comm_ring_1 ndarray \<Rightarrow> int \<Rightarrow> error + 'a ndarray" where
  "np_pow a c = (if c < 0 then Inl ValueError
                 else Inr (NDArray (shape a) (map (\<lambda>v. v ^ nat c) (flat a))))"

definition np_zeros :: "nat list \<Rightarrow> 'a::comm_ring_1 ndarray" where
  "np_zeros s = NDArray s (replicate (prod_list s) 0)"

text \<open>
  \<^verbatim>\<open>np.ones_like\<close>; of \<^verbatim>\<open>None\<close> it is the 0-dimensional array holding 1.
\<close>

definition np_ones_like :: "'a::comm_ring_1 ndarray option \<Rightarrow> 'a ndarray" where
  "np_ones_like d = (case d of None \<Rightarrow> np_scalar 1
                     | Some a \<Rightarrow> NDArray (shape a) (replicate (length (flat a)) 1))"

text \<open>
  An axis argument is normalised (negative axes count from the end); numpy raises
  \<^verbatim>\<open>AxisError\<close> out of range and \<^verbatim>\<open>ValueError\<close> for a repeated axis.
\<close>

definition normalize_axis :: "nat \<Rightarrow> int \<Rightarrow> error + nat" where
  "normalize_axis nd ax =
     (if - int nd \<le> ax \<and> ax < int nd then Inr (nat (if ax < 0 then ax + int nd else ax))
      else Inl AxisError)"

fun normalize_axes :: "nat \<Rightarrow> int list \<Rightarrow> error + nat list" where
  "normalize_axes nd [] = Inr []"
| "normalize_axes nd (ax # axs) =
     (case normalize_axis nd ax of
        Inl e \<Rightarrow> Inl e
      | Inr k \<Rightarrow> (case normalize_axes nd axs of
                   Inl e \<Rightarrow> Inl e
                 | Inr ks \<Rightarrow> if k \<in> set ks then Inl ValueError else Inr (k # ks)))"

text \<open>\<^verbatim>\<open>x.sum(axes, keepdims=True)\<close>: the summed axes stay, with length one.\<close>

definition agree_off :: "nat list \<Rightarrow> nat \<Rightarrow> nat list \<Rightarrow> nat list \<Rightarrow> bool" where
  "agree_off axes nd i j = list_all (\<lambda>k. k \<in> set axes \<or> j ! k = i ! k) [0..<nd]"

definition np_sum_keepdims :: "'a::comm_ring_1 ndarray \<Rightarrow> int list \<Rightarrow> error + 'a ndarray" where
  "np_sum_keepdims x axes =
     (case normalize_axes (length (shape x)) axes of
        Inl e \<Rightarrow> Inl e
      | Inr ks \<Rightarrow>
          Inr (tabulate (map (\<lambda>k. if k \<in> set ks then 1 else shape x ! k) [0..<length (shape x)])
                 (\<lambda>i. sum_list (map (get x)
                          (filter (agree_off ks (length (shape x)) i) (indices (shape x)))))))"

text \<open>\<^verbatim>\<open>y.squeeze(axes)\<close>: every named axis must have length one and is removed.\<close>

definition np_squeeze :: "'a ndarray \<Rightarrow> int list \<Rightarrow> error + 'a ndarray" where
  "np_squeeze y axes =
     (case normalize_axes (length (shape y)) axes of
        Inl e \<Rightarrow> Inl e
      | Inr ks \<Rightarrow>
          if list_all (\<lambda>k. shape y ! k = 1) ks
          then Inr (NDArray (map (\<lambda>k. shape y ! k)
                               (filter (\<lambda>k. k \<notin> set ks) [0..<length (shape y)])) (flat y))
          else Inl ValueError)"

definition np_broadcast_to :: "'a ndarray \<Rightarrow> nat list \<Rightarrow> error + 'a ndarray" where
  "np_broadcast_to x s =
     (if np_broadcast_shapes (shape x) s = Some s
      then Inr (tabulate s (\<lambda>i. get x (bidx (shape x) i)))
      else Inl ValueError)"

text \<open>
  Indexing along the first axis, by one integer or by a list of integers (which may
  repeat); negative indices count from the end.
\<close>

datatype index = IdxInt int | IdxList "int list"

definition np_row :: "'a ndarray \<Rightarrow> nat \<Rightarrow> 'a list" where
  "np_row x k = (let p = prod_list (tl (shape x)) in take p (drop (k * p) (flat x)))"

definition norm_index :: "nat \<Rightarrow> int \<Rightarrow> error + nat" where
  "norm_index n i =
     (if - int n \<le> i \<and> i < int n then Inr (nat (if i < 0 then i + int n else i))
      else Inl IndexError)"

fun norm_indices :: "nat \<Rightarrow> int list \<Rightarrow> error + nat list" where
  "norm_indices n [] = Inr []"
| "norm_indices n (i # is) =
     (case norm_index n i of
        Inl e \<Rightarrow> Inl e
      | Inr k \<Rightarrow> (case norm_indices n is of Inl e \<Rightarrow> Inl e | Inr ks \<Rightarrow> Inr (k # ks)))"

definition np_getitem :: "'a ndarray \<Rightarrow> index \<Rightarrow> error + 'a ndarray" where
  "np_getitem x sl =
     (case shape x of
        [] \<Rightarrow> Inl IndexError
      | n # rest \<Rightarrow>
          (case sl of
             IdxInt i \<Rightarrow>
               (case norm_index n i of
                  Inl e \<Rightarrow> Inl e
                | Inr k \<Rightarrow> Inr (NDArray rest (np_row x k)))
           | IdxList is \<Rightarrow>
               (case norm_indices n is of
                  Inl e \<Rightarrow> Inl e
                | Inr ks \<Rightarrow> Inr (NDArray (length ks # rest) (concat (map (np_row x) ks))))))"

text \<open>
  \<^verbatim>\<open>np.add.at(gx, slices, gy)\<close>: unbuffered in-place addition, so a position selected
  twice receives both contributions.
\<close>

definition add_row :: "'a::comm_ring_1 ndarray \<Rightarrow> nat \<Rightarrow> 'a list \<Rightarrow> 'a ndarray" where
  "add_row gx k r =
     (let p = prod_list (tl (shape gx))
      in NDArray (shape gx)
           (take (k * p) (flat gx) @ map2 (+) (np_row gx k) r @ drop (Suc k * p) (flat gx)))"

definition np_add_at :: "'a::comm_ring_1 ndarray \<Rightarrow> index \<Rightarrow> 'a ndarray \<Rightarrow> error + 'a ndarray" where
  "np_add_at gx sl gy =
     (case shape gx of
        [] \<Rightarrow> Inl IndexError
      | n # rest \<Rightarrow>
          (case sl of
             IdxInt i \<Rightarrow>
               (case norm_index n i of
                  Inl e \<Rightarrow> Inl e
                | Inr k \<Rightarrow>
                    (case np_broadcast_to gy rest of
                       Inl e \<Rightarrow> Inl e
                     | Inr g \<Rightarrow> Inr (add_row gx k (flat g))))
           | IdxList is \<Rightarrow>
               (case norm_indices n is of
                  Inl e \<Rightarrow> Inl e
                | Inr ks \<Rightarrow>
                    (case np_broadcast_to gy (length ks # rest) of
                       Inl e \<Rightarrow> Inl e
                     | Inr g \<Rightarrow>
                         Inr (fold (\<lambda>(m, k) acc. add_row acc k (np_row g m))
                                (zip [0..<length ks] ks) gx)))))"

section \<open>\<^verbatim>\<open>functions/utils/Transform.py\<close>\<close>

text \<open>
  \<^verbatim>\<open>sum_to(x, shape)\<close>: sum the leading axes and the axes where \<^verbatim>\<open>shape\<close> is one,
  then drop the leading axes.
\<close>

definition sum_to :: "'a::comm_ring_1 ndarray \<Rightarrow> nat list \<Rightarrow> error + 'a ndarray" where
  "sum_to x shp =
     (let ndim = int (length shp);
          lead = int (length (shape x)) - ndim;
          lead_axis = map int [0..<nat lead];
          axis = map (\<lambda>(i, sx). int i + lead)
                   (filter (\<lambda>(i, sx). sx = 1) (zip [0..<length shp] shp))
      in case np_sum_keepdims x (lead_axis @ axis) of
           Inl e \<Rightarrow> Inl e
         | Inr y \<Rightarrow> if lead > 0 then np_squeeze y lead_axis else Inr y)"

section \<open>The object store: Variables, Functions and \<^verbatim>\<open>Config\<close>\<close>

text \<open>
  Python objects are compared by identity and mutated in place, so Variables and
  Functions live in a store and are named by their position in it. A Function is put
  into the store when \<^verbatim>\<open>__call__\<close> wires it to its outputs; with
  \<^verbatim>\<open>Config.enable_backprop\<close> off nothing refers to it once the call has returned.
  Every Function modelled here has one output, which is alive whenever the Function is
  reached through that output's \<^verbatim>\<open>creator\<close>, so a weak reference is the output's
  position. The fields \<open>x0_shape\<close>, \<open>x1_shape\<close> and \<open>x_shape\<close> are written by
  \<^verbatim>\<open>forward\<close> and read by \<^verbatim>\<open>backward\<close> of the classes that have them.

  Of the Function classes, those that the properties below exercise are modelled:
  \<^verbatim>\<open>Add\<close>, \<^verbatim>\<open>Mul\<close>, \<^verbatim>\<open>Pow\<close>, \<^verbatim>\<open>Square\<close> (\<^verbatim>\<open>core/Math.py\<close>),
  \<^verbatim>\<open>GetItem\<close>, \<^verbatim>\<open>GetItemGrad\<close> (\<^verbatim>\<open>core/Utils.py\<close>), \<^verbatim>\<open>SumTo\<close> and
  \<^verbatim>\<open>BroadcastTo\<close> (\<^verbatim>\<open>functions/Tensor.py\<close>). A Variable's \<^verbatim>\<open>name\<close> plays no part
  in the engine and is left out.
\<close>

record 'a variable =
  data :: "'a ndarray option"
  grad :: "nat option"
  creator :: "nat option"
  generation :: nat

datatype kind = Add | Mul | Pow int | Square | GetItem index | GetItemGrad index "nat list"
  | SumTo "nat list" | BroadcastTo "nat list"

record func =
  kind :: kind
  inputs :: "nat list"
  outputs :: "nat list"
  f_generation :: nat
  x0_shape :: "nat list"
  x1_shape :: "nat list"
  x_shape :: "nat list"

record 'a state =
  vars :: "nat \<Rightarrow> 'a variable"
  nvars :: nat
  funs :: "nat \<Rightarrow> func"
  nfuns :: nat
  enable_backprop :: bool
  train :: bool

text \<open>
  A Python computation reads and writes the store and either returns or raises; the
  store it leaves behind is there in both cases.
\<close>

type_synonym ('a, 'r) py = "'a state \<Rightarrow> (error + 'r) \<times> 'a state"

definition returnE :: "'r \<Rightarrow> ('a, 'r) py" where
  "returnE v s = (Inr v, s)"

definition raise :: "error \<Rightarrow> ('a, 'r) py" where
  "raise e s = (Inl e, s)"

definition bindE :: "('a, 'r) py \<Rightarrow> ('r \<Rightarrow> ('a, 'q) py) \<Rightarrow> ('a, 'q) py" where
  "bindE m f s = (case m s of (Inl e, s') \<Rightarrow> (Inl e, s') | (Inr v, s') \<Rightarrow> f v s')"

definition empty_variable :: "'a variable" where
  "empty_variable = \<lparr>data = None, grad = None, creator = None, generation = 0\<rparr>"

definition empty_func :: "kind \<Rightarrow> func" where
  "empty_func k = \<lparr>kind = k, inputs = [], outputs = [], f_generation = 0,
                   x0_shape = [], x1_shape = [], x_shape = []\<rparr>"

definition init_state :: "'a state" where
  "init_state = \<lparr>vars = (\<lambda>_. empty_variable), nvars = 0,
                  funs = (\<lambda>_. empty_func Add), nfuns = 0,
                  enable_backprop = True, train = True\<rparr>"

subsection \<open>\<^verbatim>\<open>core/Config.py\<close>\<close>

definition getattr_Config :: "string \<Rightarrow> 'a state \<Rightarrow> error + bool" where
  "getattr_Config name s =
     (if name = ''enable_backprop'' then Inr (enable_backprop s)
      else if name = ''train'' then Inr (train s)
      else Inl AttributeError)"

definition setattr_Config :: "string \<Rightarrow> bool \<Rightarrow> 'a state \<Rightarrow> 'a state" where
  "setattr_Config name v s =
     (if name = ''enable_backprop'' then s\<lparr>enable_backprop := v\<rparr>
      else if name = ''train'' then s\<lparr>train := v\<rparr>
      else s)"

text \<open>
  \<^verbatim>\<open>with using_config(name, value): body\<close>. The \<^verbatim>\<open>finally\<close> clause runs whether
  the body returns or raises.
\<close>

definition using_config :: "string \<Rightarrow> bool \<Rightarrow> ('a, 'r) py \<Rightarrow> ('a, 'r) py" where
  "using_config name v body s =
     (case getattr_Config name s of
        Inl e \<Rightarrow> (Inl e, s)
      | Inr prev_value \<Rightarrow>
          (case body (setattr_Config name v s) of
             (r, s') \<Rightarrow> (r, setattr_Config name prev_value s')))"

definition no_grad :: "('a, 'r) py \<Rightarrow> ('a, 'r) py" where
  "no_grad = using_config ''enable_backprop'' False"

definition test_mode :: "('a, 'r) py \<Rightarrow> ('a, 'r) py" where
  "test_mode = using_config ''train'' False"

subsection \<open>\<^verbatim>\<open>core/Variable.py\<close>: construction and the small methods\<close>

text \<open>
  What a caller may pass where a Variable is expected: a Variable, an array,
  \<^verbatim>\<open>None\<close>, or a bare Python number (which \<^verbatim>\<open>Variable.__init__\<close> refuses).
\<close>

datatype 'a arg = ArgVar nat | ArgArr "'a ndarray" | ArgNone | ArgScalar 'a

definition new_variable :: "'a ndarray option \<Rightarrow> ('a, nat) py" where
  "new_variable d s =
     (Inr (nvars s),
      s\<lparr>vars := (vars s)(nvars s := \<lparr>data = d, grad = None, creator = None, generation = 0\<rparr>),
        nvars := Suc (nvars s)\<rparr>)"

definition Variable :: "'a arg \<Rightarrow> ('a, nat) py" where
  "Variable x = (case x of
                   ArgArr a \<Rightarrow> new_variable (Some a)
                 | ArgNone \<Rightarrow> new_variable None
                 | _ \<Rightarrow> raise TypeError)"

definition as_variable :: "'a arg \<Rightarrow> ('a, nat) py" where
  "as_variable obj = (case obj of ArgVar v \<Rightarrow> returnE v | _ \<Rightarrow> Variable obj)"

definition as_array :: "'a arg \<Rightarrow> 'a arg" where
  "as_array x = (case x of ArgScalar c \<Rightarrow> ArgArr (np_scalar c) | _ \<Rightarrow> x)"

definition set_grad :: "nat \<Rightarrow> nat option \<Rightarrow> 'a state \<Rightarrow> 'a state" where
  "set_grad x g s = s\<lparr>vars := (vars s)(x := (vars s x)\<lparr>grad := g\<rparr>)\<rparr>"

definition set_creator :: "nat \<Rightarrow> nat \<Rightarrow> nat \<Rightarrow> 'a state \<Rightarrow> 'a state" where
  "set_creator x f fgen s =
     s\<lparr>vars := (vars s)(x := (vars s x)\<lparr>creator := Some f, generation := fgen + 1\<rparr>)\<rparr>"

definition cleargrad :: "nat \<Rightarrow> 'a state \<Rightarrow> 'a state" where
  "cleargrad x = set_grad x None"


definition arg_of :: "nat option \<Rightarrow> 'a arg" where
  "arg_of v = (case v of None \<Rightarrow> ArgNone | Some x \<Rightarrow> ArgVar x)"

subsection \<open>The \<^verbatim>\<open>forward\<close> rules\<close>

text \<open>
  \<^verbatim>\<open>forward\<close> gets the \<^verbatim>\<open>data\<close> of the inputs (possibly \<^verbatim>\<open>None\<close>) and may write
  attributes of \<^verbatim>\<open>self\<close>. Reading \<^verbatim>\<open>.shape\<close> of \<^verbatim>\<open>None\<close> is an
  \<^verbatim>\<open>AttributeError\<close>, arithmetic and indexing on it a \<^verbatim>\<open>TypeError\<close>, and so is a
  wrong number of arguments.
\<close>

definition forward2 ::
  "('a ndarray \<Rightarrow> 'a ndarray \<Rightarrow> error + 'a ndarray) \<Rightarrow> func \<Rightarrow> 'a ndarray option list
     \<Rightarrow> error + ('a ndarray \<times> func)" where
  "forward2 opr self xs =
     (case xs of
        [Some x0, Some x1] \<Rightarrow>
          (case opr x0 x1 of
             Inl e \<Rightarrow> Inl e
           | Inr y \<Rightarrow> Inr (y, self\<lparr>x0_shape := shape x0, x1_shape := shape x1\<rparr>))
      | [_, _] \<Rightarrow> Inl AttributeError
      | _ \<Rightarrow> Inl TypeError)"

definition forward1 ::
  "('a ndarray \<Rightarrow> error + 'a ndarray) \<Rightarrow> bool \<Rightarrow> error \<Rightarrow> func \<Rightarrow> 'a ndarray option list
     \<Rightarrow> error + ('a ndarray \<times> func)" where
  "forward1 opr saves none_error self xs =
     (case xs of
        [Some x] \<Rightarrow>
          (case opr x of
             Inl e \<Rightarrow> Inl e
           | Inr y \<Rightarrow> Inr (y, if saves then self\<lparr>x_shape := shape x\<rparr> else self))
      | [None] \<Rightarrow> Inl none_error
      | _ \<Rightarrow> Inl TypeError)"

definition GetItemGrad_forward :: "index \<Rightarrow> nat list \<Rightarrow> 'a::comm_ring_1 ndarray \<Rightarrow> error + 'a ndarray" where
  "GetItemGrad_forward slices in_shape gy = np_add_at (np_zeros in_shape) slices gy"

definition forward ::
  "func \<Rightarrow> 'a::comm_ring_1 ndarray option list \<Rightarrow> error + ('a ndarray \<times> func)" where
  "forward self xs =
     (case kind self of
        Add \<Rightarrow> forward2 np_add self xs
      | Mul \<Rightarrow> forward2 np_mul self xs
      | Pow c \<Rightarrow> forward1 (\<lambda>x. np_pow x c) False TypeError self xs
      | Square \<Rightarrow> forward1 (\<lambda>x. np_pow x 2) False TypeError self xs
      | GetItem slices \<Rightarrow> forward1 (\<lambda>x. np_getitem x slices) False TypeError self xs
      | GetItemGrad slices in_shape \<Rightarrow>
          forward1 (GetItemGrad_forward slices in_shape) False TypeError self xs
      | SumTo shp \<Rightarrow> forward1 (\<lambda>x. sum_to x shp) True AttributeError self xs
      | BroadcastTo shp \<Rightarrow> forward1 (\<lambda>x. np_broadcast_to x shp) True AttributeError self xs)"

subsection \<open>\<^verbatim>\<open>core/Function.py\<close>: \<^verbatim>\<open>Function.__call__\<close>\<close>

fun as_variables :: "'a arg list \<Rightarrow> 'a state \<Rightarrow> (error + nat list) \<times> 'a state" where
  "as_variables [] s = (Inr [], s)"
| "as_variables (x # xs) s =
     (case as_variable x s of
        (Inl e, s') \<Rightarrow> (Inl e, s')
      | (Inr v, s') \<Rightarrow>
          (case as_variables xs s' of
             (Inl e, s'') \<Rightarrow> (Inl e, s'')
           | (Inr vs, s'') \<Rightarrow> (Inr (v # vs), s'')))"

definition wire :: "func \<Rightarrow> nat list \<Rightarrow> nat \<Rightarrow> ('a, nat) py" where
  "wire self ins out s =
     (if enable_backprop s then
        (if ins = [] then (Inl ValueError, s)
         else
           (let gen = Max (set (map (\<lambda>x. generation (vars s x)) ins));
                f = nfuns s;
                s1 = set_creator out f gen s
            in (Inr out,
                s1\<lparr>funs := (funs s1)(f := self\<lparr>f_generation := gen, inputs := ins,
                                                  outputs := [out]\<rparr>),
                   nfuns := Suc f\<rparr>)))
      else (Inr out, s))"

definition call :: "kind \<Rightarrow> 'a::comm_ring_1 arg list \<Rightarrow> ('a, nat) py" where
  "call k args =
     bindE (as_variables args) (\<lambda>ins s.
       case forward (empty_func k) (map (\<lambda>x. data (vars s x)) ins) of
         Inl e \<Rightarrow> (Inl e, s)
       | Inr (y, self) \<Rightarrow> bindE (new_variable (Some y)) (wire self ins) s)"

subsection \<open>The operators of \<^verbatim>\<open>core/Math.py\<close>, \<^verbatim>\<open>core/Utils.py\<close>, \<^verbatim>\<open>functions/Tensor.py\<close>\<close>

definition add :: "'a::comm_ring_1 arg \<Rightarrow> 'a arg \<Rightarrow> ('a, nat) py" where
  "add x0 x1 = call Add [x0, as_array x1]"

definition mul :: "'a::comm_ring_1 arg \<Rightarrow> 'a arg \<Rightarrow> ('a, nat) py" where
  "mul x0 x1 = call Mul [x0, as_array x1]"

definition pow :: "'a::comm_ring_1 arg \<Rightarrow> int \<Rightarrow> ('a, nat) py" where
  "pow x c = call (Pow c) [x]"

definition square :: "'a::comm_ring_1 arg \<Rightarrow> ('a, nat) py" where
  "square x = call Square [x]"

definition get_item :: "'a::comm_ring_1 arg \<Rightarrow> index \<Rightarrow> ('a, nat) py" where
  "get_item x slices = call (GetItem slices) [x]"

text \<open>
  \<^verbatim>\<open>a * b\<close> and \<^verbatim>\<open>a + b\<close> where each operand is a Variable or \<^verbatim>\<open>None\<close>: Python
  calls \<^verbatim>\<open>__mul__\<close> of the left operand, or the reflected method of the right one when
  the left is \<^verbatim>\<open>None\<close>.
\<close>

definition var_mul :: "nat option \<Rightarrow> nat option \<Rightarrow> ('a::comm_ring_1, nat) py" where
  "var_mul a b = (case (a, b) of
                    (Some x, _) \<Rightarrow> mul (ArgVar x) (arg_of b)
                  | (None, Some y) \<Rightarrow> mul (ArgVar y) ArgNone
                  | (None, None) \<Rightarrow> raise TypeError)"

definition var_add :: "nat option \<Rightarrow> nat option \<Rightarrow> ('a::comm_ring_1, nat) py" where
  "var_add a b = (case (a, b) of
                    (Some x, _) \<Rightarrow> add (ArgVar x) (arg_of b)
                  | (None, Some y) \<Rightarrow> add (ArgVar y) ArgNone
                  | (None, None) \<Rightarrow> raise TypeError)"

text \<open>\<^verbatim>\<open>x.shape\<close> of a Variable or \<^verbatim>\<open>None\<close>.\<close>

definition shape_of :: "nat option \<Rightarrow> ('a, nat list) py" where
  "shape_of x s = (case x of
                     None \<Rightarrow> (Inl AttributeError, s)
                   | Some v \<Rightarrow> (case data (vars s v) of
                                 None \<Rightarrow> (Inl AttributeError, s)
                               | Some a \<Rightarrow> (Inr (shape a), s)))"

definition Tensor_sum_to :: "nat option \<Rightarrow> nat list \<Rightarrow> ('a::comm_ring_1, nat) py" where
  "Tensor_sum_to x shp =
     bindE (shape_of x) (\<lambda>xs. if xs = shp then as_variable (arg_of x)
                              else call (SumTo shp) [arg_of x])"

definition broadcast_to :: "nat option \<Rightarrow> nat list \<Rightarrow> ('a::comm_ring_1, nat) py" where
  "broadcast_to x shp =
     bindE (shape_of x) (\<lambda>xs. if xs = shp then as_variable (arg_of x)
                              else call (BroadcastTo shp) [arg_of x])"

subsection \<open>The \<^verbatim>\<open>backward\<close> rules\<close>

text \<open>
  \<^verbatim>\<open>f.backward(*gys)\<close> gets the \<^verbatim>\<open>grad\<close> of each output (a Variable or
  \<^verbatim>\<open>None\<close>) and returns one gradient for each input, made into a tuple by the caller.
  \<^verbatim>\<open>GetItem.backward\<close> builds a \<^verbatim>\<open>GetItemGrad\<close> and falls off its end, returning
  \<^verbatim>\<open>None\<close>.
\<close>

definition reduce_pair ::
  "func \<Rightarrow> nat option \<Rightarrow> nat option \<Rightarrow> ('a::comm_ring_1, nat option list) py" where
  "reduce_pair self gx0 gx1 =
     (if x0_shape self \<noteq> x1_shape self then
        bindE (Tensor_sum_to gx0 (x0_shape self)) (\<lambda>g0.
        bindE (Tensor_sum_to gx1 (x1_shape self)) (\<lambda>g1.
        returnE [Some g0, Some g1]))
      else returnE [gx0, gx1])"

definition Add_backward :: "func \<Rightarrow> nat option \<Rightarrow> ('a::comm_ring_1, nat option list) py" where
  "Add_backward self gy = reduce_pair self gy gy"

definition Mul_backward :: "func \<Rightarrow> nat option \<Rightarrow> ('a::comm_ring_1, nat option list) py" where
  "Mul_backward self gy =
     (case inputs self of
        [x0, x1] \<Rightarrow>
          bindE (var_mul gy (Some x1)) (\<lambda>gx0.
          bindE (var_mul gy (Some x0)) (\<lambda>gx1.
          reduce_pair self (Some gx0) (Some gx1)))
      | _ \<Rightarrow> raise ValueError)"

definition Pow_backward :: "func \<Rightarrow> int \<Rightarrow> nat option \<Rightarrow> ('a::comm_ring_1, nat option list) py" where
  "Pow_backward self c gy =
     (case inputs self of
        [x] \<Rightarrow>
          bindE (pow (ArgVar x) (c - 1)) (\<lambda>p.
          bindE (mul (ArgVar p) (ArgScalar (of_int c))) (\<lambda>cp.
          bindE (var_mul (Some cp) gy) (\<lambda>gx.
          returnE [Some gx])))
      | _ \<Rightarrow> raise ValueError)"

definition Square_backward :: "func \<Rightarrow> nat option \<Rightarrow> ('a::comm_ring_1, nat option list) py" where
  "Square_backward self gy =
     (case inputs self of
        [x] \<Rightarrow>
          bindE (mul (ArgVar x) (ArgScalar 2)) (\<lambda>x2.
          bindE (var_mul (Some x2) gy) (\<lambda>gx.
          returnE [Some gx]))
      | _ \<Rightarrow> raise ValueError)"

definition GetItem_backward :: "func \<Rightarrow> nat option \<Rightarrow> ('a::comm_ring_1, nat option list) py" where
  "GetItem_backward self gy =
     (case inputs self of
        [x] \<Rightarrow> bindE (shape_of (Some x)) (\<lambda>in_shape. returnE [None])
      | _ \<Rightarrow> raise ValueError)"

definition backward_rule :: "func \<Rightarrow> nat option list \<Rightarrow> ('a::comm_ring_1, nat option list) py" where
  "backward_rule self gys =
     (case gys of
        [gy] \<Rightarrow>
          (case kind self of
             Add \<Rightarrow> Add_backward self gy
           | Mul \<Rightarrow> Mul_backward self gy
           | Pow c \<Rightarrow> Pow_backward self c gy
           | Square \<Rightarrow> Square_backward self gy
           | GetItem slices \<Rightarrow> GetItem_backward self gy
           | GetItemGrad slices in_shape \<Rightarrow>
               bindE (get_item (arg_of gy) slices) (\<lambda>g. returnE [Some g])
           | SumTo shp \<Rightarrow> bindE (broadcast_to gy (x_shape self)) (\<lambda>g. returnE [Some g])
           | BroadcastTo shp \<Rightarrow> bindE (Tensor_sum_to gy (x_shape self)) (\<lambda>g. returnE [Some g]))
      | _ \<Rightarrow> raise TypeError)"

subsection \<open>\<^verbatim>\<open>Variable.backward\<close>\<close>

text \<open>
  \<^verbatim>\<open>add_func\<close>: the key function of \<^verbatim>\<open>funcs.sort\<close> reads \<^verbatim>\<open>generation\<close> of every
  element, so adding \<^verbatim>\<open>None\<close> (the creator of a leaf) raises \<^verbatim>\<open>AttributeError\<close>.
  Python's sort is stable, as \<open>sort_key\<close> is.
\<close>

definition add_func ::
  "'a state \<Rightarrow> nat list \<Rightarrow> nat set \<Rightarrow> nat option \<Rightarrow> error + (nat list \<times> nat set)" where
  "add_func s funcs seen_set f =
     (case f of
        None \<Rightarrow> Inl AttributeError
      | Some g \<Rightarrow>
          if g \<notin> seen_set
          then Inr (sort_key (\<lambda>x. f_generation (funs s x)) (funcs @ [g]), insert g seen_set)
          else Inr (funcs, seen_set))"

text \<open>The loop over \<^verbatim>\<open>zip(f.inputs, gxs)\<close>.\<close>

fun accumulate ::
  "(nat \<times> nat option) list \<Rightarrow> nat list \<Rightarrow> nat set \<Rightarrow> 'a::comm_ring_1 state
     \<Rightarrow> (error + (nat list \<times> nat set)) \<times> 'a state" where
  "accumulate [] funcs seen_set s = (Inr (funcs, seen_set), s)"
| "accumulate ((x, gx) # rest) funcs seen_set s =
     (case (case grad (vars s x) of
              None \<Rightarrow> (Inr (), set_grad x gx s)
            | Some g \<Rightarrow>
                (case var_add (Some g) gx s of
                   (Inl e, s') \<Rightarrow> (Inl e, s')
                 | (Inr n, s') \<Rightarrow> (Inr (), set_grad x (Some n) s'))) of
        (Inl e, s1) \<Rightarrow> (Inl e, s1)
      | (Inr _, s1) \<Rightarrow>
          (case creator (vars s1 x) of
             None \<Rightarrow> accumulate rest funcs seen_set s1
           | Some c \<Rightarrow>
               (case add_func s1 funcs seen_set (Some c) of
                  Inl e \<Rightarrow> (Inl e, s1)
                | Inr (funcs', seen') \<Rightarrow> accumulate rest funcs' seen' s1)))"

definition clear_grads :: "nat list \<Rightarrow> 'a state \<Rightarrow> 'a state" where
  "clear_grads ys s = fold (\<lambda>y. set_grad y None) ys s"

text \<open>One turn of the \<^verbatim>\<open>while funcs:\<close> loop, after \<^verbatim>\<open>f = funcs.pop()\<close>.\<close>

definition backward_step ::
  "bool \<Rightarrow> bool \<Rightarrow> nat \<Rightarrow> nat list \<Rightarrow> nat set \<Rightarrow> ('a::comm_ring_1, nat list \<times> nat set) py" where
  "backward_step retain_grad create_graph f funcs seen_set s =
     (let self = funs s f;
          gys = map (\<lambda>y. grad (vars s y)) (outputs self)
      in using_config ''enable_backprop'' create_graph
           (bindE (backward_rule self gys) (\<lambda>gxs.
            bindE (accumulate (zip (inputs self) gxs) funcs seen_set) (\<lambda>r s'.
              (Inr r, if \<not> retain_grad then clear_grads (outputs self) s' else s')))) s)"

text \<open>
  The loop itself. Not returning is the value \<open>None\<close>; an exception ends the loop with
  the store as it is.
\<close>

partial_function (option) backward_loop ::
  "bool \<Rightarrow> bool \<Rightarrow> nat list \<Rightarrow> nat set \<Rightarrow> 'a::comm_ring_1 state
     \<Rightarrow> ((error + unit) \<times> 'a state) option" where
  "backward_loop retain_grad create_graph funcs seen_set s =
     (if funcs = [] then Some (Inr (), s)
      else (case backward_step retain_grad create_graph (last funcs) (butlast funcs) seen_set s of
              (Inl e, s') \<Rightarrow> Some (Inl e, s')
            | (Inr (funcs', seen'), s') \<Rightarrow>
                backward_loop retain_grad create_graph funcs' seen' s'))"

declare backward_loop.simps [code]

definition seed_grad :: "nat \<Rightarrow> 'a::comm_ring_1 state \<Rightarrow> 'a state" where
  "seed_grad self s =
     (if grad (vars s self) = None
      then (case new_variable (Some (np_ones_like (data (vars s self)))) s of
              (_, s') \<Rightarrow> set_grad self (Some (nvars s)) s')
      else s)"

definition backward ::
  "nat \<Rightarrow> bool \<Rightarrow> bool \<Rightarrow> 'a::comm_ring_1 state \<Rightarrow> ((error + unit) \<times> 'a state) option" where
  "backward self retain_grad create_graph s =
     (let s1 = seed_grad self s
      in case add_func s1 [] {} (creator (vars s1 self)) of
           Inl e \<Rightarrow> Some (Inl e, s1)
         | Inr (funcs, seen_set) \<Rightarrow> backward_loop retain_grad create_graph funcs seen_set s1)"

subsection \<open>\<^verbatim>\<open>Variable.unchain_backward\<close>\<close>






subsection \<open>Programs: build a graph, then call \<^verbatim>\<open>backward\<close> on its result\<close>

definition then_backward ::
  "('a::comm_ring_1, nat) py \<Rightarrow> bool \<Rightarrow> bool \<Rightarrow> 'a state \<Rightarrow> ((error + unit) \<times> 'a state) option" where
  "then_backward prog retain_grad create_graph s =
     (case prog s of
        (Inl e, s') \<Rightarrow> Some (Inl e, s')
      | (Inr y, s') \<Rightarrow> backward y retain_grad create_graph s')"

text \<open>
  The programs of the testable properties. Each allocates its leaf Variables first, so in
  a store \<open>s\<close> the first leaf is \<open>nvars s\<close>.
\<close>

definition leaf_prog :: "'a::comm_ring_1 ndarray \<Rightarrow> ('a, nat) py" where
  "leaf_prog a = Variable (ArgArr a)"

definition add_self_prog :: "'a::comm_ring_1 ndarray \<Rightarrow> ('a, nat) py" where
  "add_self_prog a = bindE (Variable (ArgArr a)) (\<lambda>x. add (ArgVar x) (ArgVar x))"

definition add_prog :: "'a::comm_ring_1 ndarray \<Rightarrow> 'a ndarray \<Rightarrow> ('a, nat) py" where
  "add_prog a b =
     bindE (Variable (ArgArr a)) (\<lambda>x.
     bindE (Variable (ArgArr b)) (\<lambda>y.
     add (ArgVar x) (ArgVar y)))"

definition diamond_prog :: "'a::comm_ring_1 ndarray \<Rightarrow> ('a, nat) py" where
  "diamond_prog a0 =
     bindE (Variable (ArgArr a0)) (\<lambda>a.
     bindE (square (ArgVar a)) (\<lambda>b.
     bindE (square (ArgVar a)) (\<lambda>c.
     add (ArgVar b) (ArgVar c))))"

definition square_prog :: "'a::comm_ring_1 ndarray \<Rightarrow> ('a, nat) py" where
  "square_prog a = bindE (Variable (ArgArr a)) (\<lambda>x. square (ArgVar x))"

definition cube_prog :: "'a::comm_ring_1 ndarray \<Rightarrow> ('a, nat) py" where
  "cube_prog a = bindE (Variable (ArgArr a)) (\<lambda>x. pow (ArgVar x) 3)"

definition get_item_prog :: "'a::comm_ring_1 ndarray \<Rightarrow> index \<Rightarrow> ('a, nat) py" where
  "get_item_prog a slices = bindE (Variable (ArgArr a)) (\<lambda>x. get_item (ArgVar x) slices)"

section \<open>The generation order\<close>

text \<open>
  Every Variable of the store that has a creator was made by a Function of the store, whose
  inputs are Variables of the store of a smaller generation.
\<close>

definition graph_inv :: "'a state \<Rightarrow> bool" where
  "graph_inv s =
     list_all (\<lambda>v. case creator (vars s v) of
                     None \<Rightarrow> True
                   | Some f \<Rightarrow> f < nfuns s \<and>
                       list_all (\<lambda>x. x < nvars s \<and> generation (vars s x) < generation (vars s v))
                         (inputs (funs s f)))
       [0..<nvars s]"

text \<open>The edges of the graph: from an input of a Function to the Function's output.\<close>

definition edges :: "'a state \<Rightarrow> (nat \<times> nat) set" where
  "edges s = {(x, v). v < nvars s \<and>
                (\<exists>f. creator (vars s v) = Some f \<and> x \<in> set (inputs (funs s f)))}"

definition args_in_store :: "'a arg list \<Rightarrow> 'a state \<Rightarrow> bool" where
  "args_in_store args s = list_all (\<lambda>x. case x of ArgVar v \<Rightarrow> v < nvars s | _ \<Rightarrow> True) args"

text \<open>What an allocation of leaf Variables leaves alone.\<close>

definition same_below :: "'a state \<Rightarrow> 'a state \<Rightarrow> bool" where
  "same_below s s' \<longleftrightarrow> nvars s \<le> nvars s' \<and> nfuns s' = nfuns s \<and> funs s' = funs s
     \<and> enable_backprop s' = enable_backprop s
     \<and> (\<forall>v < nvars s. vars s' v = vars s v)
     \<and> (\<forall>v. nvars s \<le> v \<and> v < nvars s' \<longrightarrow> creator (vars s' v) = None)"

section \<open>What a computation leaves alone\<close>

text \<open>
  \<open>grows s s'\<close>: the store \<open>s'\<close> has every Variable of \<open>s\<close> as it was, and a Function of
  \<open>s'\<close> has no output among the Variables of \<open>s\<close> that it did not have in \<open>s\<close>. A
  computation is a \<open>frame\<close> when every run of it, returning or raising, only grows the store.
\<close>

definition grows :: "'a state \<Rightarrow> 'a state \<Rightarrow> bool" where
  "grows s s' \<longleftrightarrow> nvars s \<le> nvars s' \<and> (\<forall>v < nvars s. vars s' v = vars s v)
     \<and> (\<forall>f v. v < nvars s \<and> v \<in> set (outputs (funs s' f)) \<longrightarrow> v \<in> set (outputs (funs s f)))"

definition frame :: "('a, 'r) py \<Rightarrow> bool" where
  "frame m \<longleftrightarrow> (\<forall>s r s'. m s = (r, s') \<longrightarrow> grows s s')"

definition holds_grad :: "nat \<Rightarrow> 'a state \<Rightarrow> bool" where
  "holds_grad v s \<longleftrightarrow> v < nvars s \<and> grad (vars s v) \<noteq> None"

definition not_output :: "nat \<Rightarrow> 'a state \<Rightarrow> bool" where
  "not_output v s \<longleftrightarrow> (\<forall>f. v \<notin> set (outputs (funs s f)))"

section \<open>Creator chains\<close>


definition no_creator :: "nat \<Rightarrow> 'a state \<Rightarrow> bool" where
  "no_creator x s \<longleftrightarrow> x < nvars s \<and> creator (vars s x) = None"


section \<open>The gradient of a broadcast, as the specification words it\<close>

text \<open>
  When an operand of shape \<open>t\<close> is broadcast to the shape of \<open>g\<close>, position \<open>j\<close> of the
  result reads position \<open>bidx t j\<close> of the operand. The gradient that position \<open>i\<close> of the
  operand receives is therefore the sum of \<open>g\<close> over all positions \<open>j\<close> that read \<open>i\<close>:
  the elementwise gradient summed over the broadcast axes.
\<close>

definition sum_over_broadcast :: "'a::comm_ring_1 ndarray \<Rightarrow> nat list \<Rightarrow> 'a ndarray" where
  "sum_over_broadcast g t =
     tabulate t (\<lambda>i. sum_list (map (get g) (filter (\<lambda>j. bidx t j = i) (indices (shape g)))))"

text \<open>
  The axes that \<^verbatim>\<open>sum_to\<close> sums for a target shape \<open>t\<close> with \<open>l\<close> leading axes: the
  leading ones, and those where the target has length one.
\<close>

definition sum_axes :: "nat list \<Rightarrow> nat \<Rightarrow> nat list" where
  "sum_axes t l = [0..<l] @ map (\<lambda>i. i + l) (filter (\<lambda>i. t ! i = 1) [0..<length t])"

section \<open>Facts about buffers\<close>

lemma concat_blocks: "concat (map (\<lambda>i. map (\<lambda>r. i * p + r) [0..<p]) [0..<n]) = [0..<n * p]"
proof (induction n)
  case 0
  then show ?case by simp
next
  case (Suc n)
  have "map (\<lambda>r. n * p + r) [0..<p] = [n * p..<n * p + p]"
    by (simp add: map_add_upt add.commute)
  moreover have "[0..<n * p + p] = [0..<n * p] @ [n * p..<n * p + p]"
    by (rule upt_add_eq_append) simp
  ultimately show ?case using Suc by (simp add: add.commute)
qed

lemma ravel_indices: "map (ravel s) (indices s) = [0..<prod_list s]"
proof (induction s)
  case Nil
  then show ?case by simp
next
  case (Cons n s)
  have "map (ravel (n # s)) (indices (n # s))
      = concat (map (\<lambda>i. map (\<lambda>r. i * prod_list s + r) (map (ravel s) (indices s))) [0..<n])"
    by (simp add: map_concat comp_def)
  then show ?case using Cons concat_blocks [of "prod_list s" n] by simp
qed

lemma length_indices: "length (indices s) = prod_list s"
  using arg_cong [OF ravel_indices, of length s] by simp

lemma indices_length: "i \<in> set (indices s) \<Longrightarrow> length i = length s"
  by (induction s arbitrary: i) auto

lemma indices_iff:
  "i \<in> set (indices s) \<longleftrightarrow> length i = length s \<and> (\<forall>k < length s. i ! k < s ! k)"
proof (induction s arbitrary: i)
  case Nil
  then show ?case by simp
next
  case (Cons n s)
  show ?case
  proof (cases i)
    case Nil
    then show ?thesis by auto
  next
    case (Cons j js)
    have "(\<forall>k<Suc (length s). (j # js) ! k < (n # s) ! k)
            \<longleftrightarrow> j < n \<and> (\<forall>k<length s. js ! k < s ! k)"
      by (auto simp: less_Suc_eq_0_disj)
    then show ?thesis using Cons Cons.IH [of js] by auto
  qed
qed

lemma indices_bound: "i \<in> set (indices s) \<Longrightarrow> k < length s \<Longrightarrow> i ! k < s ! k"
  by (simp add: indices_iff)

lemma distinct_indices: "distinct (indices s)"
proof -
  have "distinct (map (ravel s) (indices s))" by (simp add: ravel_indices)
  then show ?thesis by (rule distinct_map [THEN iffD1, THEN conjunct1])
qed

lemma ravel_less: "i \<in> set (indices s) \<Longrightarrow> ravel s i < prod_list s"
proof -
  assume "i \<in> set (indices s)"
  then have "ravel s i \<in> set (map (ravel s) (indices s))" by simp
  then show ?thesis by (simp add: ravel_indices)
qed

lemma indices_nth_ravel: "i \<in> set (indices s) \<Longrightarrow> indices s ! ravel s i = i"
proof -
  assume a: "i \<in> set (indices s)"
  then obtain k where k: "k < length (indices s)" "indices s ! k = i"
    by (auto simp: in_set_conv_nth)
  have "map (ravel s) (indices s) ! k = [0..<prod_list s] ! k" by (simp add: ravel_indices)
  with k have "ravel s i = k" by (simp add: length_indices)
  with k show ?thesis by simp
qed

lemma get_tabulate: "i \<in> set (indices s) \<Longrightarrow> get (tabulate s f) i = f i"
  by (simp add: get_def tabulate_def ravel_less length_indices indices_nth_ravel)

lemma shape_tabulate [simp]: "shape (tabulate s f) = s"
  by (simp add: tabulate_def)

lemma wf_tabulate [simp]: "wf_array (tabulate s f)"
  by (simp add: wf_array_def tabulate_def length_indices)

lemma map_via_ravel:
  "length xs = prod_list s \<Longrightarrow> map (\<lambda>i. g (xs ! ravel s i)) (indices s) = map g xs"
proof -
  assume len: "length xs = prod_list s"
  have "map (\<lambda>i. g (xs ! ravel s i)) (indices s)
      = map (\<lambda>k. g (xs ! k)) (map (ravel s) (indices s))"
    by (simp add: comp_def)
  also have "\<dots> = map (\<lambda>k. g (xs ! k)) [0..<length xs]" by (simp add: ravel_indices len)
  also have "\<dots> = map g (map ((!) xs) [0..<length xs])" by (simp add: comp_def)
  also have "\<dots> = map g xs" by (simp only: map_nth)
  finally show ?thesis .
qed

lemma bshape_same: "np_broadcast_shapes s s = Some s"
  by (simp add: np_broadcast_shapes_def list_all2_same map2_map_map zip_same_conv_map
      list.map_ident_strong)

lemma bshape_nil_right: "np_broadcast_shapes s [] = Some s"
  apply (simp add: np_broadcast_shapes_def Let_def list_all2_conv_all_nth)
  apply (rule nth_equalityI)
   apply simp_all
  done

lemma bshape_nil_left: "np_broadcast_shapes [] s = Some s"
  apply (simp add: np_broadcast_shapes_def Let_def list_all2_conv_all_nth)
  apply (rule nth_equalityI)
   apply simp_all
  done

lemma bidx_same: "i \<in> set (indices s) \<Longrightarrow> bidx s i = i"
  apply (frule indices_length)
  apply (simp add: bidx_def)
  apply (rule nth_equalityI)
   apply simp
  apply (auto dest: indices_bound)
  done

lemma bidx_nil [simp]: "bidx [] i = []"
  by (simp add: bidx_def)

text \<open>An elementwise operation on two buffers of one shape works position by position.\<close>

lemma np_binop_same:
  assumes "wf_array a" "wf_array b" "shape a = shape b"
  shows "np_binop f a b = Inr (NDArray (shape a) (map2 f (flat a) (flat b)))"
proof -
  let ?s = "shape a"
  have la: "length (flat a) = prod_list ?s" and lb: "length (flat b) = prod_list ?s"
    using assms by (simp_all add: wf_array_def)
  have "map (\<lambda>i. f (get a (bidx ?s i)) (get b (bidx ?s i))) (indices ?s)
      = map (\<lambda>i. f (flat a ! ravel ?s i) (flat b ! ravel ?s i)) (indices ?s)"
    using assms by (simp add: bidx_same get_def cong: map_cong)
  also have "\<dots> = map (\<lambda>k. f (flat a ! k) (flat b ! k)) (map (ravel ?s) (indices ?s))"
    by (simp add: comp_def)
  also have "\<dots> = map (\<lambda>k. f (flat a ! k) (flat b ! k)) [0..<prod_list ?s]"
    by (simp add: ravel_indices)
  also have "\<dots> = map2 f (flat a) (flat b)"
    by (rule nth_equalityI) (simp_all add: la lb)
  finally show ?thesis using assms by (simp add: np_binop_def bshape_same tabulate_def)
qed

text \<open>With a 0-dimensional operand the scalar meets every element.\<close>

lemma np_binop_scalar:
  assumes "wf_array a"
  shows "np_binop f a (NDArray [] [c]) = Inr (NDArray (shape a) (map (\<lambda>v. f v c) (flat a)))"
proof -
  let ?s = "shape a"
  have la: "length (flat a) = prod_list ?s"
    using assms by (simp add: wf_array_def)
  have "map (\<lambda>i. f (get a (bidx ?s i)) c) (indices ?s)
      = map (\<lambda>i. f (flat a ! ravel ?s i) c) (indices ?s)"
    by (simp add: bidx_same get_def cong: map_cong)
  also have "\<dots> = map (\<lambda>v. f v c) (flat a)"
    using map_via_ravel [OF la, of "\<lambda>v. f v c"] by simp
  finally show ?thesis by (simp add: np_binop_def bshape_nil_right tabulate_def get_def)
qed

lemma np_binop_scalar_left:
  assumes "wf_array a"
  shows "np_binop f (NDArray [] [c]) a = Inr (NDArray (shape a) (map (f c) (flat a)))"
proof -
  let ?s = "shape a"
  have la: "length (flat a) = prod_list ?s"
    using assms by (simp add: wf_array_def)
  have "map (\<lambda>i. f c (get a (bidx ?s i))) (indices ?s)
      = map (\<lambda>i. f c (flat a ! ravel ?s i)) (indices ?s)"
    by (simp add: bidx_same get_def cong: map_cong)
  also have "\<dots> = map (f c) (flat a)"
    using map_via_ravel [OF la, of "f c"] by simp
  finally show ?thesis by (simp add: np_binop_def bshape_nil_left tabulate_def get_def)
qed

lemma np_binop_same_raw:
  "length xs = prod_list s \<Longrightarrow> length ys = prod_list s \<Longrightarrow>
   np_binop f (NDArray s xs) (NDArray s ys) = Inr (NDArray s (map2 f xs ys))"
  using np_binop_same [of "NDArray s xs" "NDArray s ys" f] by (simp add: wf_array_def)

lemma np_binop_scalar_raw:
  "length xs = prod_list s \<Longrightarrow>
   np_binop f (NDArray s xs) (NDArray [] [c]) = Inr (NDArray s (map (\<lambda>v. f v c) xs))"
  using np_binop_scalar [of "NDArray s xs" f c] by (simp add: wf_array_def)

lemma np_binop_scalar_left_raw:
  "length xs = prod_list s \<Longrightarrow>
   np_binop f (NDArray [] [c]) (NDArray s xs) = Inr (NDArray s (map (f c) xs))"
  using np_binop_scalar_left [of "NDArray s xs" f c] by (simp add: wf_array_def)

lemma map2_replicate_right:
  "length xs = n \<Longrightarrow> map2 f xs (replicate n c) = map (\<lambda>v. f v c) xs"
  by (rule nth_equalityI) simp_all

lemma map2_replicate_left:
  "length xs = n \<Longrightarrow> map2 f (replicate n c) xs = map (f c) xs"
  by (rule nth_equalityI) simp_all

lemma map2_same: "map2 f xs xs = map (\<lambda>v. f v v) xs"
  by (rule nth_equalityI) simp_all

lemma four_times: "v * 2 + v * 2 = 4 * (v :: 'a::comm_ring_1)"
  by (simp add: algebra_simps)

lemma wf_ones_like: "wf_array a \<Longrightarrow> wf_array (np_ones_like (Some a))"
  by (simp add: wf_array_def np_ones_like_def)

lemma shape_ones_like [simp]: "shape (np_ones_like (Some a)) = shape a"
  by (simp add: np_ones_like_def)

section \<open>Mode scopes\<close>

lemma getattr_setattr:
  "getattr_Config name s = Inr p \<Longrightarrow> getattr_Config name (setattr_Config name v s') = Inr v"
  by (auto simp: getattr_Config_def setattr_Config_def split: if_splits)

text \<open>
  C9. A \<^verbatim>\<open>using_config\<close> scope, and so a \<^verbatim>\<open>no_grad\<close> scope, runs its body with the flag
  overridden and hands on what the body returned or raised; whatever the body did, and on
  either way out, the flag then has the value it had before the scope was entered.
\<close>

theorem scope_restores_flag:
  "getattr_Config name (snd (using_config name v body s)) = getattr_Config name s
   \<and> enable_backprop (snd (no_grad body s)) = enable_backprop s
   \<and> fst (no_grad body s) = fst (body (s\<lparr>enable_backprop := False\<rparr>))"
proof -
  have a: "getattr_Config name (snd (using_config name v body s)) = getattr_Config name s"
    by (auto simp: using_config_def getattr_Config_def setattr_Config_def
        split: sum.splits prod.splits if_splits)
  have b: "enable_backprop (snd (no_grad body s)) = enable_backprop s"
    by (simp add: no_grad_def using_config_def getattr_Config_def setattr_Config_def
        split: prod.splits)
  have c: "fst (no_grad body s) = fst (body (s\<lparr>enable_backprop := False\<rparr>))"
    by (simp add: no_grad_def using_config_def getattr_Config_def setattr_Config_def
        split: prod.splits)
  from a b c show ?thesis by blast
qed

section \<open>Running programs\<close>

text \<open>
  The definitions that the simplifier unfolds to run a program on a store whose contents
  are not known.
\<close>

lemmas exec_defs = then_backward_def bindE_def Variable_def new_variable_def add_def mul_def
  square_def pow_def get_item_def call_def as_array_def as_variable_def returnE_def raise_def
  forward_def forward2_def forward1_def empty_func_def wire_def set_creator_def
  backward_def seed_grad_def add_func_def set_grad_def backward_step_def using_config_def
  getattr_Config_def setattr_Config_def backward_rule_def Add_backward_def Mul_backward_def
  Square_backward_def Pow_backward_def GetItem_backward_def reduce_pair_def shape_of_def
  var_add_def var_mul_def arg_of_def clear_grads_def cleargrad_def Let_def
  np_add_def np_mul_def np_pow_def np_scalar_def np_ones_like_def

subsection \<open>One Variable in two input slots\<close>

text \<open>
  C10. \<^verbatim>\<open>x = Variable(a); y = add(x, x); y.backward()\<close>, started in any store that
  records gradients: \<^verbatim>\<open>backward\<close> returns, and \<^verbatim>\<open>x.grad.data\<close> is
  \<^verbatim>\<open>2 * ones_like(x.data)\<close>. The gradient of the second slot is added to that of the
  first.
\<close>

theorem add_self_grad_is_two:
  assumes "wf_array a" "enable_backprop s"
  shows "\<exists>s' g d. then_backward (add_self_prog a) False False s = Some (Inr (), s')
           \<and> data (vars s' (nvars s)) = Some a
           \<and> grad (vars s' (nvars s)) = Some g \<and> data (vars s' g) = Some d
           \<and> np_mul (np_scalar 2) (np_ones_like (Some a)) = Inr d"
proof (cases a)
  case (NDArray sh xs)
  with assms(1) have len: "length xs = prod_list sh" by (simp add: wf_array_def)
  have "np_mul (np_scalar 2) (np_ones_like (Some a))
          = Inr (NDArray sh (replicate (prod_list sh) 2))"
    using len NDArray
    by (simp add: np_mul_def np_scalar_def np_ones_like_def np_binop_scalar_left_raw)
  moreover have "\<exists>s'. then_backward (add_self_prog a) False False s = Some (Inr (), s')
     \<and> data (vars s' (nvars s)) = Some a
     \<and> (\<exists>g. grad (vars s' (nvars s)) = Some g
            \<and> data (vars s' g) = Some (NDArray sh (replicate (prod_list sh) 2)))"
    using len assms(2) NDArray
    by (simp add: add_self_prog_def exec_defs backward_loop.simps np_binop_same_raw)
  ultimately show ?thesis by auto
qed

theorem add_self_grad_is_two_witness:
  "\<exists>s' g. then_backward (add_self_prog (NDArray [2] [3, 5 :: int])) False False init_state
             = Some (Inr (), s')
         \<and> grad (vars s' 0) = Some g \<and> data (vars s' g) = Some (NDArray [2] [2, 2])"
  using add_self_grad_is_two [of "NDArray [2] [3, 5 :: int]" init_state]
  by (auto simp: wf_array_def init_state_def np_mul_def np_scalar_def np_ones_like_def
      np_binop_scalar_left_raw)

subsection \<open>The diamond\<close>

text \<open>
  C1. \<^verbatim>\<open>a = Variable(a0); b = square(a); c = square(a); d = add(b, c); d.backward()\<close>,
  started in any store that records gradients: \<^verbatim>\<open>backward\<close> returns, and
  \<^verbatim>\<open>a.grad.data\<close> is \<^verbatim>\<open>4 * a.data\<close>. The gradient that arrives through \<^verbatim>\<open>c\<close>
  is assigned, the one that arrives through \<^verbatim>\<open>b\<close> is added to it.
\<close>

theorem diamond_grad_is_four_times:
  assumes "wf_array a" "enable_backprop s"
  shows "\<exists>s' g d. then_backward (diamond_prog a) False False s = Some (Inr (), s')
           \<and> data (vars s' (nvars s)) = Some a
           \<and> grad (vars s' (nvars s)) = Some g \<and> data (vars s' g) = Some d
           \<and> np_mul (np_scalar 4) a = Inr d"
proof (cases a)
  case (NDArray sh xs)
  with assms(1) have len: "length xs = prod_list sh" by (simp add: wf_array_def)
  have "np_mul (np_scalar 4) a = Inr (NDArray sh (map (\<lambda>v. 4 * v) xs))"
    using len NDArray by (simp add: np_mul_def np_scalar_def np_binop_scalar_left_raw)
  moreover have "\<exists>s'. then_backward (diamond_prog a) False False s = Some (Inr (), s')
     \<and> data (vars s' (nvars s)) = Some a
     \<and> (\<exists>g. grad (vars s' (nvars s)) = Some g
            \<and> data (vars s' g) = Some (NDArray sh (map (\<lambda>v. 4 * v) xs)))"
    using len assms(2) NDArray
    by (simp add: diamond_prog_def exec_defs backward_loop.simps np_binop_same_raw
        np_binop_scalar_raw map2_replicate_right map2_same four_times)
  ultimately show ?thesis by auto
qed

theorem diamond_grad_is_four_times_witness:
  "\<exists>s' g. then_backward (diamond_prog (NDArray [2] [3, 5 :: int])) False False init_state
             = Some (Inr (), s')
         \<and> grad (vars s' 0) = Some g \<and> data (vars s' g) = Some (NDArray [2] [12, 20])"
  using diamond_grad_is_four_times [of "NDArray [2] [3, 5 :: int]" init_state]
  by (auto simp: wf_array_def init_state_def np_mul_def np_scalar_def np_binop_scalar_left_raw)

text \<open>
  The two cases of the accumulation loop, for one input that has no creator: an absent
  \<^verbatim>\<open>grad\<close> is assigned; a present one is replaced by a new Variable that holds the sum.
\<close>

lemma accumulate_absent:
  assumes "grad (vars s x) = None" "creator (vars s x) = None"
  shows "accumulate [(x, gx)] funcs seen_set s = (Inr (funcs, seen_set), set_grad x gx s)"
  using assms by (simp add: set_grad_def)

lemma accumulate_present:
  assumes "grad (vars s x) = Some g" "creator (vars s x) = None" "\<not> enable_backprop s"
    and "data (vars s g) = Some u" "data (vars s gx) = Some v" "np_add u v = Inr w"
    and "x < nvars s"
  shows "\<exists>s'. accumulate [(x, Some gx)] funcs seen_set s = (Inr (funcs, seen_set), s')
           \<and> grad (vars s' x) = Some (nvars s) \<and> data (vars s' (nvars s)) = Some w"
  using assms
  by (simp add: exec_defs del: np_add_def)

subsection \<open>\<^verbatim>\<open>backward\<close> on a leaf\<close>

lemma leaf_backward:
  assumes "creator (vars s a) = None"
  shows "backward a retain_grad create_graph s = Some (Inl AttributeError, seed_grad a s)"
proof -
  have "creator (vars (seed_grad a s) a) = None"
    using assms by (simp add: seed_grad_def new_variable_def set_grad_def)
  then show ?thesis by (simp add: backward_def add_func_def)
qed

text \<open>
  C4. \<^verbatim>\<open>a = Variable(np.array(1)); a.backward()\<close>: the \<^verbatim>\<open>grad\<close> is seeded and the
  creator stays absent, but the call raises \<^verbatim>\<open>AttributeError\<close>:
  \<^verbatim>\<open>add_func(self.creator)\<close> appends \<^verbatim>\<open>None\<close> and the sort key reads its
  \<^verbatim>\<open>generation\<close>.
\<close>

theorem leaf_backward_raises:
  "\<exists>s'. then_backward (leaf_prog (np_scalar (1 :: int))) False False init_state
           = Some (Inl AttributeError, s')
       \<and> creator (vars s' 0) = None
       \<and> grad (vars s' 0) = Some 1 \<and> data (vars s' 1) = Some (np_scalar 1)"
  by (simp add: leaf_prog_def init_state_def exec_defs)

subsection \<open>Indexing\<close>

text \<open>
  \<^verbatim>\<open>GetItemGrad.forward\<close> scatters into zeros and adds up what lands on one position.
\<close>

lemma GetItemGrad_accumulates:
  "GetItemGrad_forward (IdxList [0, 0]) [3] (NDArray [2] [1, 1 :: int])
     = Inr (NDArray [3] [2, 0, 0])"
  by code_simp

text \<open>
  C6. \<^verbatim>\<open>x = Variable(np.array([10, 20, 30])); y = get_item(x, [0, 0]); y.backward()\<close>:
  \<^verbatim>\<open>backward\<close> returns and \<^verbatim>\<open>x.grad\<close> is still \<^verbatim>\<open>None\<close>, because
  \<^verbatim>\<open>GetItem.backward\<close> returns nothing. What it was to return is the output of the
  \<^verbatim>\<open>GetItemGrad\<close> it builds: \<^verbatim>\<open>[2, 0, 0]\<close> for this index and a gradient of ones.
\<close>

theorem get_item_backward_returns_none:
  "\<exists>s'. then_backward (get_item_prog (NDArray [3] [10, 20, 30 :: int]) (IdxList [0, 0]))
            False False init_state = Some (Inr (), s')
       \<and> data (vars s' 1) = Some (NDArray [2] [10, 10])
       \<and> grad (vars s' 0) = None
       \<and> GetItemGrad_forward (IdxList [0, 0]) [3] (NDArray [2] [1, 1 :: int])
           = Inr (NDArray [3] [2, 0, 0])"
  by (simp add: get_item_prog_def init_state_def exec_defs backward_loop.simps
      np_getitem_def norm_index_def np_row_def GetItemGrad_accumulates)

section \<open>The generation order is kept\<close>

lemma graph_inv_iff:
  "graph_inv s \<longleftrightarrow>
     (\<forall>v f. v < nvars s \<and> creator (vars s v) = Some f \<longrightarrow>
        f < nfuns s \<and> (\<forall>x \<in> set (inputs (funs s f)).
                          x < nvars s \<and> generation (vars s x) < generation (vars s v)))"
  by (auto simp: graph_inv_def list_all_iff split: option.splits)

lemma graph_inv_init: "graph_inv init_state"
  by (simp add: graph_inv_def init_state_def)

lemma graph_inv_acyclic: "graph_inv s \<Longrightarrow> acyclic (edges s)"
proof -
  assume inv: "graph_inv s"
  have "edges s \<subseteq> measure (\<lambda>v. generation (vars s v))"
    using inv by (auto simp: edges_def graph_inv_iff)
  then have "wf (edges s)" by (rule wf_subset [OF wf_measure])
  then show ?thesis by (rule wf_acyclic)
qed

lemma same_below_refl: "same_below s s"
  by (auto simp: same_below_def)

lemma same_below_trans:
  assumes "same_below s s1" "same_below s1 s2"
  shows "same_below s s2"
proof -
  have "creator (vars s2 v) = None" if "nvars s \<le> v" "v < nvars s2" for v
  proof (cases "v < nvars s1")
    case True
    with assms that show ?thesis by (auto simp: same_below_def)
  next
    case False
    with assms that show ?thesis by (auto simp: same_below_def not_less)
  qed
  moreover have "vars s2 v = vars s v" if "v < nvars s" for v
    using assms that by (simp add: same_below_def)
  ultimately show ?thesis using assms by (simp add: same_below_def)
qed

lemma same_below_new_variable: "new_variable d s = (r, s') \<Longrightarrow> same_below s s' \<and> r = Inr (nvars s) \<and> nvars s' = Suc (nvars s)"
  by (auto simp: new_variable_def same_below_def)

lemma same_below_as_variable:
  "as_variable x s = (r, s') \<Longrightarrow> same_below s s'"
  by (cases x) (auto simp: as_variable_def Variable_def returnE_def raise_def
      same_below_refl dest: same_below_new_variable)

lemma as_variable_result:
  "as_variable x s = (Inr v, s') \<Longrightarrow> (case x of ArgVar w \<Rightarrow> w < nvars s | _ \<Rightarrow> True) \<Longrightarrow> v < nvars s'"
  by (cases x) (auto simp: as_variable_def Variable_def returnE_def raise_def new_variable_def)

lemma as_variables_frame:
  "as_variables args s = (r, s') \<Longrightarrow> same_below s s'"
proof (induction args arbitrary: s r s')
  case Nil
  then show ?case by (simp add: same_below_refl)
next
  case (Cons x xs)
  obtain r1 s1 where a: "as_variable x s = (r1, s1)" by (cases "as_variable x s")
  then have f1: "same_below s s1" by (rule same_below_as_variable)
  show ?case
  proof (cases r1)
    case (Inl e)
    with Cons.prems a f1 show ?thesis by simp
  next
    case (Inr v)
    obtain r2 s2 where b: "as_variables xs s1 = (r2, s2)" by (cases "as_variables xs s1")
    then have "same_below s1 s2" by (rule Cons.IH)
    with f1 have "same_below s s2" by (rule same_below_trans)
    with Cons.prems a b Inr show ?thesis by (auto split: sum.splits)
  qed
qed

lemma as_variables_result:
  "as_variables args s = (Inr ins, s') \<Longrightarrow> args_in_store args s \<Longrightarrow> \<forall>x \<in> set ins. x < nvars s'"
proof (induction args arbitrary: s ins s')
  case Nil
  then show ?case by simp
next
  case (Cons x xs)
  from Cons.prems(1) obtain v s1 vs where
    a: "as_variable x s = (Inr v, s1)" and b: "as_variables xs s1 = (Inr vs, s')"
    and ins: "ins = v # vs"
    by (auto split: prod.splits sum.splits)
  from Cons.prems(2) have x: "(case x of ArgVar w \<Rightarrow> w < nvars s | _ \<Rightarrow> True)"
    and xs: "args_in_store xs s" by (simp_all add: args_in_store_def)
  from a x have v: "v < nvars s1" by (rule as_variable_result)
  from a have f1: "same_below s s1" by (rule same_below_as_variable)
  then have "args_in_store xs s1"
    using xs by (auto simp: args_in_store_def same_below_def list_all_iff split: arg.splits)
  with b have "\<forall>x \<in> set vs. x < nvars s'" by (rule Cons.IH)
  moreover from b have "same_below s1 s'" by (rule as_variables_frame)
  then have "v < nvars s'" using v by (simp add: same_below_def)
  ultimately show ?case using ins by simp
qed

lemma graph_inv_same_below:
  assumes inv: "graph_inv s" and fr: "same_below s s'"
  shows "graph_inv s'"
  unfolding graph_inv_iff
proof (intro allI impI)
  fix v f
  assume a: "v < nvars s' \<and> creator (vars s' v) = Some f"
  have old: "v < nvars s"
  proof (rule ccontr)
    assume "\<not> v < nvars s"
    with a fr have "creator (vars s' v) = None" by (auto simp: same_below_def not_less)
    with a show False by simp
  qed
  with fr a have c: "creator (vars s v) = Some f" by (simp add: same_below_def)
  with inv old have f: "f < nfuns s"
    and ins: "\<forall>x \<in> set (inputs (funs s f)). x < nvars s \<and> generation (vars s x) < generation (vars s v)"
    by (auto simp: graph_inv_iff)
  show "f < nfuns s' \<and> (\<forall>x \<in> set (inputs (funs s' f)).
          x < nvars s' \<and> generation (vars s' x) < generation (vars s' v))"
    using f ins fr old by (auto simp: same_below_def)
qed


lemma Max_generation_less:
  "x \<in> set ins \<Longrightarrow> g x < Suc (Max (g ` set ins))"
proof -
  assume "x \<in> set ins"
  then have "g x \<le> Max (g ` set ins)" by (intro Max_ge) auto
  then show ?thesis by simp
qed

lemma wire_new_variable:
  assumes "enable_backprop s1" "ins \<noteq> []" "\<forall>x \<in> set ins. x < nvars s1"
  shows "bindE (new_variable (Some y)) (wire self ins) s1
     = (Inr (nvars s1),
        s1\<lparr>vars := (vars s1)(nvars s1 := \<lparr>data = Some y, grad = None,
                creator = Some (nfuns s1),
                generation = Max (set (map (\<lambda>x. generation (vars s1 x)) ins)) + 1\<rparr>),
           nvars := Suc (nvars s1),
           funs := (funs s1)(nfuns s1 := self\<lparr>f_generation :=
                  Max (set (map (\<lambda>x. generation (vars s1 x)) ins)), inputs := ins,
                outputs := [nvars s1]\<rparr>),
           nfuns := Suc (nfuns s1)\<rparr>)"
proof -
  have "(\<lambda>x. generation (if x = nvars s1 then u else vars s1 x)) ` set ins
        = (\<lambda>x. generation (vars s1 x)) ` set ins" for u
    using assms(3) by (intro image_cong) auto
  then show ?thesis
    using assms(1,2)
    by (simp add: bindE_def new_variable_def wire_def set_creator_def Let_def)
qed

lemma wire_new_variable_off:
  assumes "\<not> enable_backprop s1"
  shows "bindE (new_variable (Some y)) (wire self ins) s1
     = (Inr (nvars s1),
        s1\<lparr>vars := (vars s1)(nvars s1 := \<lparr>data = Some y, grad = None,
                creator = None, generation = 0\<rparr>),
           nvars := Suc (nvars s1)\<rparr>)"
  using assms by (simp add: bindE_def new_variable_def wire_def)

text \<open>
  C8. An Operation applied to Variables of a store that satisfies the generation order
  leaves a store that satisfies it, so the graph stays acyclic. With recording on, the
  Function's generation is the maximum of its inputs' generations, the output's generation
  is one more, and so it exceeds the generation of every input.
\<close>

theorem call_generation_order:
  assumes inv: "graph_inv s" and args: "args_in_store args s"
    and run: "call k args s = (Inr out, s')"
  shows "graph_inv s' \<and> acyclic (edges s')
     \<and> (enable_backprop s \<longrightarrow>
          (\<exists>f. creator (vars s' out) = Some f
             \<and> f_generation (funs s' f)
                 = Max (set (map (\<lambda>x. generation (vars s' x)) (inputs (funs s' f))))
             \<and> generation (vars s' out) = f_generation (funs s' f) + 1
             \<and> (\<forall>x \<in> set (inputs (funs s' f)).
                   generation (vars s' x) < generation (vars s' out))))"
proof -
  from run obtain ins s1 y self where
    av: "as_variables args s = (Inr ins, s1)"
    and fw: "forward (empty_func k) (map (\<lambda>x. data (vars s1 x)) ins) = Inr (y, self)"
    and w: "bindE (new_variable (Some y)) (wire self ins) s1 = (Inr out, s')"
    by (auto simp: call_def bindE_def split: prod.splits sum.splits)
  from av have fr: "same_below s s1" by (rule as_variables_frame)
  with inv have inv1: "graph_inv s1" by (rule graph_inv_same_below)
  from av args have ins: "\<forall>x \<in> set ins. x < nvars s1" by (rule as_variables_result)
  let ?o = "nvars s1"
  let ?gen = "Max (set (map (\<lambda>x. generation (vars s1 x)) ins))"
  have eb: "enable_backprop s1 = enable_backprop s" using fr by (simp add: same_below_def)
  show ?thesis
  proof (cases "enable_backprop s")
    case False
    with w eb have "same_below s1 s'"
      by (auto simp: wire_new_variable_off same_below_def)
    with inv1 have "graph_inv s'" by (simp add: graph_inv_same_below)
    with False show ?thesis by (simp add: graph_inv_acyclic)
  next
    case True
    have ne: "ins \<noteq> []"
    proof
      assume "ins = []"
      with w eb True show False by (simp add: bindE_def new_variable_def wire_def)
    qed
    from w eb True ne ins have out: "out = ?o"
      and s': "s' = s1\<lparr>vars := (vars s1)(?o := \<lparr>data = Some y, grad = None,
                creator = Some (nfuns s1), generation = ?gen + 1\<rparr>),
           nvars := Suc ?o,
           funs := (funs s1)(nfuns s1 := self\<lparr>f_generation := ?gen, inputs := ins,
                outputs := [?o]\<rparr>),
           nfuns := Suc (nfuns s1)\<rparr>"
      by (auto simp: wire_new_variable)
    have mx: "\<forall>x \<in> set ins. generation (vars s1 x)
                < Suc (Max ((\<lambda>x. generation (vars s1 x)) ` set ins))"
      using Max_generation_less [of _ ins "\<lambda>x. generation (vars s1 x)"] by blast
    have keep: "(\<lambda>x. generation (vars s' x)) ` set ins = (\<lambda>x. generation (vars s1 x)) ` set ins"
      using ins s' by (intro image_cong) auto
    have "graph_inv s'"
      unfolding graph_inv_iff
    proof (intro allI impI)
      fix v f
      assume a: "v < nvars s' \<and> creator (vars s' v) = Some f"
      show "f < nfuns s' \<and> (\<forall>x \<in> set (inputs (funs s' f)).
              x < nvars s' \<and> generation (vars s' x) < generation (vars s' v))"
      proof (cases "v = ?o")
        case True
        with a s' have f: "f = nfuns s1" by simp
        show ?thesis using True f s' ins mx by auto
      next
        case False
        with a s' have v: "v < ?o" and c: "creator (vars s1 v) = Some f" by auto
        with inv1 have f: "f < nfuns s1"
          and i: "\<forall>x \<in> set (inputs (funs s1 f)).
                    x < nvars s1 \<and> generation (vars s1 x) < generation (vars s1 v)"
          by (auto simp: graph_inv_iff)
        then show ?thesis using s' v by auto
      qed
    qed
    moreover have "creator (vars s' out) = Some (nfuns s1)" using s' out by simp
    moreover have "f_generation (funs s' (nfuns s1))
          = Max (set (map (\<lambda>x. generation (vars s' x)) (inputs (funs s' (nfuns s1)))))"
      using keep s' by simp
    moreover have "generation (vars s' out) = f_generation (funs s' (nfuns s1)) + 1"
      using s' out by simp
    moreover have "\<forall>x \<in> set (inputs (funs s' (nfuns s1))).
                   generation (vars s' x) < generation (vars s' out)"
      using s' out ins mx by auto
    ultimately show ?thesis by (auto simp: graph_inv_acyclic)
  qed
qed

theorem call_generation_order_witness:
  "\<exists>s'. call Square [ArgVar 0] (snd (leaf_prog (np_scalar (3 :: int)) init_state)) = (Inr 1, s')
       \<and> graph_inv s' \<and> acyclic (edges s')
       \<and> f_generation (funs s' 0) = 0 \<and> generation (vars s' 1) = 1"
proof -
  let ?s = "snd (leaf_prog (np_scalar (3 :: int)) init_state)"
  let ?s' = "snd (call Square [ArgVar 0] ?s)"
  have inv: "graph_inv ?s"
    by (simp add: graph_inv_def leaf_prog_def init_state_def exec_defs)
  have args: "args_in_store [ArgVar 0] ?s"
    by (simp add: args_in_store_def leaf_prog_def init_state_def exec_defs)
  have run: "call Square [ArgVar 0] ?s = (Inr 1, ?s')"
    by (simp add: leaf_prog_def init_state_def exec_defs)
  have "f_generation (funs ?s' 0) = 0 \<and> generation (vars ?s' 1) = 1"
    by (simp add: leaf_prog_def init_state_def exec_defs)
  with call_generation_order [OF inv args run] run show ?thesis by blast
qed

section \<open>What \<^verbatim>\<open>backward\<close> clears\<close>

lemma grows_refl: "grows s s"
  by (simp add: grows_def)

lemma grows_trans: "grows s s1 \<Longrightarrow> grows s1 s2 \<Longrightarrow> grows s s2"
  unfolding grows_def
  apply (intro conjI allI impI)
    apply simp
   apply simp
  apply (metis less_le_trans)
  done

lemma frameI: "(\<And>s r s'. m s = (r, s') \<Longrightarrow> grows s s') \<Longrightarrow> frame m"
  by (simp add: frame_def)

lemma frameD: "frame m \<Longrightarrow> m s = (r, s') \<Longrightarrow> grows s s'"
  by (simp add: frame_def)

lemma frame_returnE: "frame (returnE v)"
  by (simp add: frame_def returnE_def grows_refl)

lemma frame_raise: "frame (raise e)"
  by (simp add: frame_def raise_def grows_refl)

lemma frame_bindE:
  assumes "frame m" "\<And>v. frame (f v)"
  shows "frame (bindE m f)"
proof (rule frameI)
  fix s r s'
  assume run: "bindE m f s = (r, s')"
  obtain r1 s1 where m: "m s = (r1, s1)" by (cases "m s")
  with assms(1) have g1: "grows s s1" by (rule frameD)
  show "grows s s'"
  proof (cases r1)
    case (Inl e)
    with run m g1 show ?thesis by (simp add: bindE_def)
  next
    case (Inr v)
    with run m have "f v s1 = (r, s')" by (simp add: bindE_def)
    with assms(2) have "grows s1 s'" by (rule frameD)
    with g1 show ?thesis by (rule grows_trans)
  qed
qed

lemma frame_new_variable: "frame (new_variable d)"
  by (auto simp: frame_def new_variable_def grows_def)

lemma frame_as_variable: "frame (as_variable x)"
  by (cases x) (simp_all add: as_variable_def Variable_def frame_returnE frame_raise
      frame_new_variable)

lemma frame_as_variables: "frame (as_variables xs)"
proof (induction xs)
  case Nil
  then show ?case by (simp add: frame_def grows_refl)
next
  case (Cons x xs)
  have "as_variables (x # xs)
      = bindE (as_variable x) (\<lambda>v. bindE (as_variables xs) (\<lambda>vs. returnE (v # vs)))"
    by (rule ext) (simp add: bindE_def returnE_def split: prod.splits sum.splits)
  then show ?case using Cons
    by (simp add: frame_bindE frame_as_variable frame_returnE)
qed

lemma frame_new_wire: "frame (bindE (new_variable d) (wire self ins))"
proof (rule frameI)
  fix s r s'
  assume "bindE (new_variable d) (wire self ins) s = (r, s')"
  then show "grows s s'"
    by (auto simp: bindE_def new_variable_def wire_def set_creator_def Let_def grows_def
        split: if_splits)
qed

lemma frame_call: "frame (call k args)"
proof -
  have "frame (\<lambda>s. case forward (empty_func k) (map (\<lambda>x. data (vars s x)) ins) of
                 Inl e \<Rightarrow> (Inl e, s)
               | Inr (y, self) \<Rightarrow> bindE (new_variable (Some y)) (wire self ins) s)" for ins
    by (rule frameI) (auto split: sum.splits dest: frameD [OF frame_new_wire] simp: grows_refl)
  then show ?thesis
    unfolding call_def by (intro frame_bindE frame_as_variables)
qed

lemma frame_shape_of: "frame (shape_of x)"
  by (rule frameI) (auto simp: shape_of_def grows_refl split: option.splits)

lemma frame_ops:
  "frame (add x0 x1)" "frame (mul x0 x1)" "frame (pow x0 c)" "frame (square x0)"
  "frame (get_item x0 sl)" "frame (var_mul a b)" "frame (var_add a b)"
  "frame (Tensor_sum_to a shp)" "frame (broadcast_to a shp)"
  by (auto simp: add_def mul_def pow_def square_def get_item_def var_mul_def var_add_def
      Tensor_sum_to_def broadcast_to_def
      intro!: frame_call frame_raise frame_bindE frame_shape_of frame_as_variable
      split: option.splits)

lemma frame_reduce_pair: "frame (reduce_pair self g0 g1)"
  by (auto simp: reduce_pair_def intro!: frame_bindE frame_ops frame_returnE)

lemma frame_backward_rule: "frame (backward_rule self gys)"
  by (auto simp: backward_rule_def Add_backward_def Mul_backward_def Pow_backward_def
      Square_backward_def GetItem_backward_def
      intro!: frame_bindE frame_ops frame_returnE frame_raise frame_reduce_pair frame_shape_of
      split: list.splits kind.splits)


lemma holds_grad_grows: "grows s s' \<Longrightarrow> holds_grad v s \<Longrightarrow> holds_grad v s'"
  by (auto simp: grows_def holds_grad_def)

lemma not_output_grows: "grows s s' \<Longrightarrow> v < nvars s \<Longrightarrow> not_output v s \<Longrightarrow> not_output v s'"
  by (auto simp: grows_def not_output_def)

lemma holds_grad_set_grad:
  "holds_grad v s \<Longrightarrow> x \<noteq> v \<or> g \<noteq> None \<Longrightarrow> holds_grad v (set_grad x g s)"
  by (auto simp: holds_grad_def set_grad_def)

lemma not_output_set_grad [simp]: "not_output v (set_grad x g s) = not_output v s"
  by (simp add: not_output_def set_grad_def)

lemma nvars_set_grad [simp]: "nvars (set_grad x g s) = nvars s"
  by (simp add: set_grad_def)

text \<open>
  The accumulation loop never takes a \<^verbatim>\<open>grad\<close> away, whether it returns or raises.
\<close>

lemma accumulate_keeps:
  "accumulate xs funcs seen_set s = (r, s') \<Longrightarrow> holds_grad v s \<Longrightarrow>
     holds_grad v s' \<and> (not_output v s \<longrightarrow> not_output v s')"
proof (induction xs funcs seen_set s arbitrary: r s' rule: accumulate.induct)
  case (1 funcs seen_set s)
  then show ?case by simp
next
  case (2 x gx rest funcs seen_set s)
  let ?upd = "case grad (vars s x) of
                None \<Rightarrow> (Inr (), set_grad x gx s)
              | Some g \<Rightarrow>
                  (case var_add (Some g) gx s of
                     (Inl e, s') \<Rightarrow> (Inl e, s')
                   | (Inr n, s') \<Rightarrow> (Inr (), set_grad x (Some n) s'))"
  obtain r1 s1 where u: "?upd = (r1, s1)" by (cases ?upd)
  have k1: "holds_grad v s1 \<and> (not_output v s \<longrightarrow> not_output v s1)"
  proof (cases "grad (vars s x)")
    case None
    with "2.prems"(2) have "x \<noteq> v" by (auto simp: holds_grad_def)
    with None u "2.prems"(2) show ?thesis by (auto simp: holds_grad_set_grad)
  next
    case (Some g)
    obtain r2 s2 where va: "var_add (Some g) gx s = (r2, s2)"
      by (cases "var_add (Some g) gx s")
    then have g2: "grows s s2" by (rule frameD [OF frame_ops(7)])
    from g2 "2.prems"(2) have h2: "holds_grad v s2" by (rule holds_grad_grows)
    have n2: "not_output v s \<longrightarrow> not_output v s2"
      using g2 "2.prems"(2) by (auto simp: holds_grad_def intro: not_output_grows)
    show ?thesis using Some u va h2 n2
      by (cases r2) (auto simp: holds_grad_set_grad)
  qed
  show ?case
  proof (cases r1)
    case (Inl e)
    with "2.prems"(1) u k1 show ?thesis by simp
  next
    case (Inr u1)
    show ?thesis
    proof (cases "creator (vars s1 x)")
      case None
      with "2.prems"(1) u Inr have "accumulate rest funcs seen_set s1 = (r, s')" by simp
      with "2.IH"(1) [OF u [symmetric] _ None] Inr k1 show ?thesis by auto
    next
      case (Some c)
      show ?thesis
      proof (cases "add_func s1 funcs seen_set (Some c)")
        case (Inl e)
        with "2.prems"(1) u Inr Some k1 show ?thesis by simp
      next
        case (Inr fs)
        obtain funcs' seen' where fs: "fs = (funcs', seen')" by (cases fs)
        with "2.prems"(1) u \<open>r1 = Inr u1\<close> Some Inr
        have "accumulate rest funcs' seen' s1 = (r, s')" by simp
        with "2.IH"(2) [OF u [symmetric] _ Some Inr fs [symmetric]] \<open>r1 = Inr u1\<close> k1
        show ?thesis by auto
      qed
    qed
  qed
qed


lemma holds_grad_flag [simp]: "holds_grad v (s\<lparr>enable_backprop := b\<rparr>) = holds_grad v s"
  by (simp add: holds_grad_def)

lemma not_output_flag [simp]: "not_output v (s\<lparr>enable_backprop := b\<rparr>) = not_output v s"
  by (simp add: not_output_def)

lemma clear_grads_vars:
  "vars (clear_grads ys s) v = (if v \<in> set ys then (vars s v)\<lparr>grad := None\<rparr> else vars s v)"
  unfolding clear_grads_def
proof (induction ys arbitrary: s)
  case Nil
  then show ?case by simp
next
  case (Cons y ys)
  show ?case by (simp add: Cons.IH) (simp add: set_grad_def)
qed

lemma clear_grads_other [simp]:
  "nvars (clear_grads ys s) = nvars s" "funs (clear_grads ys s) = funs s"
  unfolding clear_grads_def by (induction ys arbitrary: s) (simp_all add: set_grad_def)

lemma backward_step_result:
  assumes "backward_step retain_grad create_graph f funcs seen_set s = (r, s')"
  obtains (rule_raises) e s1 where
      "backward_rule (funs s f) (map (\<lambda>y. grad (vars s y)) (outputs (funs s f)))
         (s\<lparr>enable_backprop := create_graph\<rparr>) = (Inl e, s1)"
      "r = Inl e" "s' = s1\<lparr>enable_backprop := enable_backprop s\<rparr>"
  | (accumulate_raises) gxs s1 e s2 where
      "backward_rule (funs s f) (map (\<lambda>y. grad (vars s y)) (outputs (funs s f)))
         (s\<lparr>enable_backprop := create_graph\<rparr>) = (Inr gxs, s1)"
      "accumulate (zip (inputs (funs s f)) gxs) funcs seen_set s1 = (Inl e, s2)"
      "r = Inl e" "s' = s2\<lparr>enable_backprop := enable_backprop s\<rparr>"
  | (returns) gxs s1 q s2 where
      "backward_rule (funs s f) (map (\<lambda>y. grad (vars s y)) (outputs (funs s f)))
         (s\<lparr>enable_backprop := create_graph\<rparr>) = (Inr gxs, s1)"
      "accumulate (zip (inputs (funs s f)) gxs) funcs seen_set s1 = (Inr q, s2)"
      "r = Inr q"
      "s' = (if \<not> retain_grad then clear_grads (outputs (funs s f)) s2 else s2)
              \<lparr>enable_backprop := enable_backprop s\<rparr>"
  using assms
  unfolding backward_step_def using_config_def getattr_Config_def setattr_Config_def
    bindE_def Let_def
  by (auto split: prod.splits sum.splits if_splits)

lemma backward_step_keeps:
  assumes run: "backward_step retain_grad create_graph f funcs seen_set s = (r, s')"
    and h: "holds_grad v s"
    and out: "retain_grad \<or> v \<notin> set (outputs (funs s f))"
  shows "holds_grad v s' \<and> (not_output v s \<longrightarrow> not_output v s')"
proof -
  let ?s0 = "s\<lparr>enable_backprop := create_graph\<rparr>"
  have h0: "holds_grad v ?s0" using h by simp
  have lt: "v < nvars ?s0" using h by (simp add: holds_grad_def)
  from run show ?thesis
  proof (cases rule: backward_step_result)
    case (rule_raises e s1)
    then have g: "grows ?s0 s1" by (intro frameD [OF frame_backward_rule])
    from g h0 have "holds_grad v s1" by (rule holds_grad_grows)
    moreover from g lt have "not_output v s \<longrightarrow> not_output v s1"
      by (auto dest: not_output_grows)
    ultimately show ?thesis using rule_raises by simp
  next
    case (accumulate_raises gxs s1 e s2)
    then have g: "grows ?s0 s1" by (intro frameD [OF frame_backward_rule])
    from g h0 have h1: "holds_grad v s1" by (rule holds_grad_grows)
    from g lt have n1: "not_output v s \<longrightarrow> not_output v s1"
      by (auto dest: not_output_grows)
    from accumulate_keeps [OF accumulate_raises(2) h1] n1 accumulate_raises(4)
    show ?thesis by simp
  next
    case (returns gxs s1 q s2)
    then have g: "grows ?s0 s1" by (intro frameD [OF frame_backward_rule])
    from g h0 have h1: "holds_grad v s1" by (rule holds_grad_grows)
    from g lt have n1: "not_output v s \<longrightarrow> not_output v s1"
      by (auto dest: not_output_grows)
    from accumulate_keeps [OF returns(2) h1] n1
    have k2: "holds_grad v s2" "not_output v s \<longrightarrow> not_output v s2" by auto
    show ?thesis using k2 out returns(4)
      by (auto simp: holds_grad_def not_output_def clear_grads_vars)
  qed
qed

lemma backward_step_clears:
  assumes run: "backward_step False create_graph f funcs seen_set s = (Inr q, s')"
    and y: "y \<in> set (outputs (funs s f))"
  shows "grad (vars s' y) = None"
  using run
proof (cases rule: backward_step_result)
  case (returns gxs s1 q s2)
  with y show ?thesis by (simp add: clear_grads_vars)
qed simp_all

lemma backward_loop_keeps:
  assumes ret: "backward_loop retain_grad create_graph funcs seen_set s = Some res"
  shows "holds_grad v s \<and> not_output v s
           \<longrightarrow> holds_grad v (snd res) \<and> not_output v (snd res)"
proof (rule backward_loop.raw_induct
    [where P = "\<lambda>rg cg fs sn s res.
                  holds_grad v s \<and> not_output v s
                    \<longrightarrow> holds_grad v (snd res) \<and> not_output v (snd res)",
     OF _ ret])
  fix loop and rg cg :: bool and fs :: "nat list" and sn :: "nat set"
    and s :: "'a state" and y :: "(error + unit) \<times> 'a state"
  assume IH: "\<And>rg cg fs sn s y. loop rg cg fs sn s = Some y \<Longrightarrow>
                 holds_grad v s \<and> not_output v s
                   \<longrightarrow> holds_grad v (snd y) \<and> not_output v (snd y)"
    and eq: "(if fs = [] then Some (Inr (), s)
              else case backward_step rg cg (last fs) (butlast fs) sn s of
                     (Inl e, s') \<Rightarrow> Some (Inl e, s')
                   | (Inr (funcs', seen'), s') \<Rightarrow> loop rg cg funcs' seen' s') = Some y"
  show "holds_grad v s \<and> not_output v s \<longrightarrow> holds_grad v (snd y) \<and> not_output v (snd y)"
  proof
    assume hv: "holds_grad v s \<and> not_output v s"
    show "holds_grad v (snd y) \<and> not_output v (snd y)"
    proof (cases "fs = []")
      case True
      with eq hv show ?thesis by auto
    next
      case False
      obtain r1 s1 where st: "backward_step rg cg (last fs) (butlast fs) sn s = (r1, s1)"
        by (cases "backward_step rg cg (last fs) (butlast fs) sn s")
      from hv have "rg \<or> v \<notin> set (outputs (funs s (last fs)))"
        by (simp add: not_output_def)
      with backward_step_keeps [OF st] hv
      have k1: "holds_grad v s1 \<and> not_output v s1" by blast
      show ?thesis
      proof (cases r1)
        case (Inl e)
        with eq False st k1 show ?thesis by auto
      next
        case (Inr p)
        obtain funcs' seen' where p: "p = (funcs', seen')" by (cases p)
        with eq False st Inr have "loop rg cg funcs' seen' s1 = Some y" by simp
        from IH [OF this] k1 show ?thesis by blast
      qed
    qed
  qed
qed

lemma seed_grad_keeps:
  "holds_grad v s \<Longrightarrow> holds_grad v (seed_grad t s)"
  "not_output v s \<Longrightarrow> not_output v (seed_grad t s)"
  by (auto simp: seed_grad_def new_variable_def set_grad_def holds_grad_def not_output_def)

lemma backward_keeps:
  assumes ret: "backward t retain_grad create_graph s = Some (r, s')"
    and h: "holds_grad v s" and n: "not_output v s"
  shows "holds_grad v s'"
proof -
  let ?s1 = "seed_grad t s"
  have k: "holds_grad v ?s1 \<and> not_output v ?s1" using h n by (simp add: seed_grad_keeps)
  show ?thesis
  proof (cases "add_func ?s1 [] {} (creator (vars ?s1 t))")
    case (Inl e)
    with ret k show ?thesis by (auto simp: backward_def Let_def)
  next
    case (Inr p)
    obtain funcs seen_set where p: "p = (funcs, seen_set)" by (cases p)
    with ret Inr have "backward_loop retain_grad create_graph funcs seen_set ?s1 = Some (r, s')"
      by (simp add: backward_def Let_def)
    from backward_loop_keeps [OF this] k show ?thesis by auto
  qed
qed


lemma square_run:
  assumes "wf_array a" "enable_backprop s"
  shows "\<exists>s'. then_backward (square_prog a) False False s = Some (Inr (), s')
           \<and> grad (vars s' (Suc (nvars s))) = None \<and> grad (vars s' (nvars s)) \<noteq> None"
proof (cases a)
  case (NDArray sh xs)
  with assms(1) have len: "length xs = prod_list sh" by (simp add: wf_array_def)
  show ?thesis
    using len assms(2) NDArray
    by (simp add: square_prog_def exec_defs backward_loop.simps np_binop_same_raw
        np_binop_scalar_raw)
qed

text \<open>
  C5, as the code has it. With \<^verbatim>\<open>retain_grad\<close> false, a turn of the loop that returns
  leaves every output of its Function without \<^verbatim>\<open>grad\<close>; no turn, returning or raising,
  takes the \<^verbatim>\<open>grad\<close> of a Variable that is not an output of its Function; so a whole
  \<^verbatim>\<open>backward\<close> takes no \<^verbatim>\<open>grad\<close> from a Variable that is an output of no Function (a
  leaf). The Variable \<^verbatim>\<open>backward\<close> was called on is an output of its creator: in
  \<^verbatim>\<open>x = Variable(a); y = square(x); y.backward()\<close> the terminal \<^verbatim>\<open>y\<close> ends without
  \<^verbatim>\<open>grad\<close> and the leaf \<^verbatim>\<open>x\<close> with one.
\<close>

theorem clearing_is_of_outputs:
  "(backward_step False create_graph f funcs seen_set s = (Inr q, s1)
      \<longrightarrow> (\<forall>y \<in> set (outputs (funs s f)). grad (vars s1 y) = None))
   \<and> (backward_step False create_graph f funcs seen_set s = (r, s2)
        \<and> v < nvars s \<and> grad (vars s v) \<noteq> None \<and> v \<notin> set (outputs (funs s f))
      \<longrightarrow> grad (vars s2 v) \<noteq> None)
   \<and> (backward t False create_graph s = Some (r', s3)
        \<and> v < nvars s \<and> grad (vars s v) \<noteq> None \<and> (\<forall>g. v \<notin> set (outputs (funs s g)))
      \<longrightarrow> grad (vars s3 v) \<noteq> None)
   \<and> (wf_array a \<and> enable_backprop s
      \<longrightarrow> (\<exists>s'. then_backward (square_prog a) False False s = Some (Inr (), s')
             \<and> grad (vars s' (Suc (nvars s))) = None \<and> grad (vars s' (nvars s)) \<noteq> None))"
proof (intro conjI impI)
  assume "backward_step False create_graph f funcs seen_set s = (Inr q, s1)"
  then show "\<forall>y \<in> set (outputs (funs s f)). grad (vars s1 y) = None"
    by (blast intro: backward_step_clears)
next
  assume a: "backward_step False create_graph f funcs seen_set s = (r, s2)
        \<and> v < nvars s \<and> grad (vars s v) \<noteq> None \<and> v \<notin> set (outputs (funs s f))"
  then have "holds_grad v s" by (simp add: holds_grad_def)
  with a backward_step_keeps [of False create_graph f funcs seen_set s r s2 v]
  show "grad (vars s2 v) \<noteq> None" by (simp add: holds_grad_def)
next
  assume a: "backward t False create_graph s = Some (r', s3)
        \<and> v < nvars s \<and> grad (vars s v) \<noteq> None \<and> (\<forall>g. v \<notin> set (outputs (funs s g)))"
  then have "holds_grad v s" "not_output v s" by (simp_all add: holds_grad_def not_output_def)
  with a backward_keeps [of t False create_graph s r' s3 v]
  show "grad (vars s3 v) \<noteq> None" by (simp add: holds_grad_def)
next
  assume "wf_array a \<and> enable_backprop s"
  then show "\<exists>s'. then_backward (square_prog a) False False s = Some (Inr (), s')
             \<and> grad (vars s' (Suc (nvars s))) = None \<and> grad (vars s' (nvars s)) \<noteq> None"
    using square_run [of a s] by blast
qed

text \<open>
  The claim as stated fails for the terminal Variable: \<^verbatim>\<open>y.backward()\<close> seeds
  \<^verbatim>\<open>y.grad\<close>, and when it returns \<^verbatim>\<open>y.grad\<close> is \<^verbatim>\<open>None\<close>.
\<close>

theorem terminal_grad_is_cleared:
  "\<exists>s0 s'. square_prog (np_scalar (3 :: int)) init_state = (Inr 1, s0)
      \<and> grad (vars (seed_grad 1 s0) 1) = Some 2
      \<and> backward 1 False False s0 = Some (Inr (), s')
      \<and> grad (vars s' 1) = None"
  by (simp add: square_prog_def init_state_def exec_defs backward_loop.simps
      np_binop_same_raw np_binop_scalar_raw)

theorem clearing_is_of_outputs_witness:
  "\<exists>s0 sB q s1 r s2 r' s3 s'.
       square_prog (np_scalar (3 :: int)) init_state = (Inr 1, s0)
     \<and> backward_step False False 0 [] {0} (seed_grad 1 s0) = (Inr q, s1)
     \<and> grad (vars s1 1) = None
     \<and> backward 1 True False s0 = Some (Inr (), sB)
     \<and> backward_step False False 0 [] {0} sB = (r, s2) \<and> grad (vars s2 0) \<noteq> None
     \<and> backward 1 False False sB = Some (r', s3) \<and> grad (vars s3 0) \<noteq> None
     \<and> then_backward (square_prog (np_scalar (3 :: int))) False False init_state
          = Some (Inr (), s')
     \<and> grad (vars s' 1) = None \<and> grad (vars s' 0) \<noteq> None"
proof -
  obtain s0 sB q s1 r s2 r' s3 where
    p: "square_prog (np_scalar (3 :: int)) init_state = (Inr 1, s0)"
    and st1: "backward_step False False 0 [] {0} (seed_grad 1 s0) = (Inr q, s1)"
    and o1: "1 \<in> set (outputs (funs (seed_grad 1 s0) 0))"
    and b: "backward 1 True False s0 = Some (Inr (), sB)"
    and st2: "backward_step False False 0 [] {0} sB = (r, s2)"
    and h: "0 < nvars sB" "grad (vars sB 0) \<noteq> None"
    and o2: "\<forall>g. 0 \<notin> set (outputs (funs sB g))"
    and b3: "backward 1 False False sB = Some (r', s3)"
    by (simp add: square_prog_def init_state_def exec_defs backward_loop.simps
        np_binop_same_raw np_binop_scalar_raw)
  note t = clearing_is_of_outputs
  have c1: "grad (vars s1 1) = None"
    using t [of False 0 "[]" "{0}" "seed_grad 1 s0" q s1] st1 o1 by blast
  have c2: "grad (vars s2 0) \<noteq> None"
    using t [of False 0 "[]" "{0}" sB _ _ r s2 0] st2 h o2 by blast
  have c3: "grad (vars s3 0) \<noteq> None"
    using t [of False _ _ _ sB _ _ _ _ 0 1 r' s3] b3 h o2 by blast
  have w: "wf_array (np_scalar (3 :: int))" "enable_backprop (init_state :: int state)"
    by (simp_all add: wf_array_def np_scalar_def init_state_def)
  obtain s' where c4: "then_backward (square_prog (np_scalar (3 :: int))) False False init_state
          = Some (Inr (), s')" "grad (vars s' (Suc (nvars (init_state :: int state)))) = None"
     "grad (vars s' (nvars (init_state :: int state))) \<noteq> None"
    using t [of False _ _ _ init_state _ _ _ _ _ _ _ _ "np_scalar (3 :: int)"] w by blast
  then have "grad (vars s' 1) = None" "grad (vars s' 0) \<noteq> None"
    by (simp_all add: init_state_def)
  with p st1 c1 b st2 c2 b3 c3 c4(1) show ?thesis by blast
qed

section \<open>Detaching a chain\<close>








lemma no_creator_set_grad [simp]: "no_creator x (set_grad y g s) = no_creator x s"
  by (simp add: no_creator_def set_grad_def)

lemma no_creator_flag [simp]: "no_creator x (s\<lparr>enable_backprop := b\<rparr>) = no_creator x s"
  by (simp add: no_creator_def)









section \<open>Broadcasting and \<^verbatim>\<open>sum_to\<close>\<close>

lemma map2_nth:
  "i < length xs \<Longrightarrow> i < length ys \<Longrightarrow> map2 f xs ys ! i = f (xs ! i) (ys ! i)"
  by simp

lemma bshape_to_D:
  assumes "np_broadcast_shapes t s = Some s"
  shows "length t \<le> length s"
    and "\<And>k. k < length t \<Longrightarrow> t ! k = 1 \<or> t ! k = s ! (k + (length s - length t))"
proof -
  let ?n = "max (length t) (length s)"
  let ?p0 = "replicate (?n - length t) 1 @ t"
  let ?p1 = "replicate (?n - length s) 1 @ s"
  from assms have eq: "map2 (\<lambda>a b. if a = 1 then b else a) ?p0 ?p1 = s"
    by (simp add: np_broadcast_shapes_def Let_def split: if_splits)
  from arg_cong [OF eq, of length] show le: "length t \<le> length s" by simp
  then have p1: "?p1 = s" and n: "?n = length s" by (simp_all add: max_def)
  fix k assume k: "k < length t"
  define l where "l = length s - length t"
  define P where "P = replicate l (1::nat) @ t"
  define m where "m = l + k"
  have p0: "?p0 = P" using n by (simp add: l_def P_def)
  have lt: "m < length s" using k le by (simp add: l_def m_def)
  have lP: "m < length P" using k by (simp add: P_def m_def)
  have nth: "P ! m = t ! k"
    unfolding P_def m_def using nth_append_length_plus [of "replicate l 1" t k] by simp
  have "map2 (\<lambda>a b. if a = 1 then b else a) P s ! m = s ! m"
    using eq p0 p1 by simp
  then have "(if P ! m = 1 then s ! m else P ! m) = s ! m"
    by (simp only: map2_nth [OF lP lt])
  then have "t ! k = 1 \<or> t ! k = s ! m"
    unfolding nth by (auto split: if_splits)
  then show "t ! k = 1 \<or> t ! k = s ! (k + (length s - length t))"
    by (simp add: l_def m_def add.commute)
qed

lemma normalize_axes_nat:
  "distinct ks \<Longrightarrow> \<forall>k \<in> set ks. k < nd \<Longrightarrow> normalize_axes nd (map int ks) = Inr ks"
  by (induction ks) (auto simp: normalize_axis_def)

lemma indices_replicate_one:
  "indices (replicate l (Suc 0) @ t) = map ((@) (replicate l 0)) (indices t)"
proof (induction l)
  case 0
  then show ?case by simp
next
  case (Suc l)
  have "indices (replicate (Suc l) (Suc 0) @ t)
          = map ((#) 0) (indices (replicate l (Suc 0) @ t))"
    by simp
  then show ?case using Suc by simp
qed

lemma ravel_replicate_one [simp]:
  "ravel (replicate l (Suc 0) @ t) (replicate l 0 @ i) = ravel t i"
  by (induction l) simp_all

lemma set_sum_axes:
  "set (sum_axes t l) = {k. k < l} \<union> {i + l |i. i < length t \<and> t ! i = 1}"
  by (auto simp: sum_axes_def)

lemma distinct_sum_axes: "distinct (sum_axes t l)"
  by (auto simp: sum_axes_def distinct_map inj_on_def)

lemma filter_zip_upt:
  "map fst (filter (\<lambda>(i, sx). sx = c) (zip [0..<length t] t))
     = filter (\<lambda>i. t ! i = c) [0..<length t]"
proof -
  have "zip [0..<length t] t = map (\<lambda>i. (i, t ! i)) [0..<length t]"
    by (rule nth_equalityI) simp_all
  then show ?thesis by (simp add: filter_map comp_def)
qed

lemma sum_to_axes:
  assumes "length t \<le> n"
  shows "map int [0..<nat (int n - int (length t))]
           @ map (\<lambda>(i, sx). int i + (int n - int (length t)))
               (filter (\<lambda>(i, sx). sx = 1) (zip [0..<length t] t))
         = map int (sum_axes t (n - length t))"
proof -
  have a: "nat (int n - int (length t)) = n - length t" by simp
  have "map (\<lambda>(i, sx). int i + (int n - int (length t)))
               (filter (\<lambda>(i, sx). sx = 1) (zip [0..<length t] t))
      = map (\<lambda>i. int i + (int n - int (length t)))
          (map fst (filter (\<lambda>(i, sx). sx = 1) (zip [0..<length t] t)))"
    by (simp add: case_prod_unfold)
  also have "\<dots> = map (\<lambda>i. int (i + (n - length t))) (filter (\<lambda>i. t ! i = 1) [0..<length t])"
    using assms by (simp add: filter_zip_upt of_nat_diff)
  finally show ?thesis by (simp add: sum_axes_def a comp_def)
qed


lemma mask_shape:
  assumes bc: "np_broadcast_shapes t s = Some s"
  shows "map (\<lambda>k. if k \<in> set (sum_axes t (length s - length t)) then 1 else s ! k)
           [0..<length s] = replicate (length s - length t) 1 @ t"
proof (rule nth_equalityI)
  from bshape_to_D(1) [OF bc] show "length (map (\<lambda>k. if k \<in> set (sum_axes t (length s - length t))
        then 1 else s ! k) [0..<length s]) = length (replicate (length s - length t) 1 @ t)"
    by simp
next
  fix k
  define l where "l = length s - length t"
  assume "k < length (map (\<lambda>k. if k \<in> set (sum_axes t (length s - length t))
        then 1 else s ! k) [0..<length s])"
  then have k: "k < length s" by simp
  have le: "length t \<le> length s" by (rule bshape_to_D(1) [OF bc])
  show "map (\<lambda>k. if k \<in> set (sum_axes t (length s - length t)) then 1 else s ! k)
           [0..<length s] ! k = (replicate (length s - length t) 1 @ t) ! k"
  proof (cases "k < l")
    case True
    then show ?thesis using k by (simp add: set_sum_axes nth_append l_def)
  next
    case False
    define i where "i = k - l"
    have ki: "k = i + l" and i: "i < length t" using False k le by (simp_all add: i_def l_def)
    have r: "(replicate l 1 @ t) ! k = t ! i"
      using False by (simp add: nth_append i_def)
    have mem: "k \<in> set (sum_axes t l) \<longleftrightarrow> t ! i = 1"
      using i by (auto simp: set_sum_axes ki)
    from bshape_to_D(2) [OF bc i] have d: "t ! i = 1 \<or> t ! i = s ! k"
      by (simp add: ki l_def)
    show ?thesis
      using k d mem r by (auto simp: l_def [symmetric])
  qed
qed

lemma bidx_eq_iff:
  assumes i: "i \<in> set (indices t)" and j: "length j = n" and le: "length t \<le> n"
  shows "bidx t j = i \<longleftrightarrow> (\<forall>k < length t. t ! k \<noteq> 1 \<longrightarrow> j ! (k + (n - length t)) = i ! k)"
proof -
  have li: "length i = length t" using i by (rule indices_length)
  have lb: "length (bidx t j) = length t" using j le by (simp add: bidx_def)
  have nb: "bidx t j ! k = (if t ! k = 1 then 0 else j ! (k + (n - length t)))"
    if "k < length t" for k
    using that j le by (simp add: bidx_def add.commute)
  have i0: "i ! k = 0" if "k < length t" "t ! k = 1" for k
    using indices_bound [OF i that(1)] that(2) by simp
  show ?thesis
  proof
    assume "bidx t j = i"
    then show "\<forall>k < length t. t ! k \<noteq> 1 \<longrightarrow> j ! (k + (n - length t)) = i ! k"
      using nb by (metis)
  next
    assume a: "\<forall>k < length t. t ! k \<noteq> 1 \<longrightarrow> j ! (k + (n - length t)) = i ! k"
    show "bidx t j = i"
    proof (rule nth_equalityI)
      show "length (bidx t j) = length i" using lb li by simp
    next
      fix k assume "k < length (bidx t j)"
      then have k: "k < length t" using lb by simp
      show "bidx t j ! k = i ! k"
        using nb [OF k] a k i0 [OF k] by auto
    qed
  qed
qed

lemma agree_off_iff:
  assumes i: "i \<in> set (indices t)" and j: "length j = n" and le: "length t \<le> n"
  shows "agree_off (sum_axes t (n - length t)) n (replicate (n - length t) 0 @ i) j
           \<longleftrightarrow> bidx t j = i"
proof -
  define l where "l = n - length t"
  have li: "length i = length t" using i by (rule indices_length)
  have "agree_off (sum_axes t l) n (replicate l 0 @ i) j
      \<longleftrightarrow> (\<forall>k < n. k \<in> set (sum_axes t l) \<or> j ! k = (replicate l 0 @ i) ! k)"
    by (auto simp: agree_off_def list_all_iff)
  also have "\<dots> \<longleftrightarrow> (\<forall>k < length t. t ! k \<noteq> 1 \<longrightarrow> j ! (k + l) = i ! k)"
  proof
    assume a: "\<forall>k < n. k \<in> set (sum_axes t l) \<or> j ! k = (replicate l 0 @ i) ! k"
    show "\<forall>k < length t. t ! k \<noteq> 1 \<longrightarrow> j ! (k + l) = i ! k"
    proof (intro allI impI)
      fix k assume k: "k < length t" and t: "t ! k \<noteq> 1"
      have "k + l < n" using k le by (simp add: l_def)
      moreover have "k + l \<notin> set (sum_axes t l)" using t by (auto simp: set_sum_axes)
      ultimately have "j ! (k + l) = (replicate l 0 @ i) ! (k + l)" using a by blast
      then show "j ! (k + l) = i ! k" by (simp add: nth_append)
    qed
  next
    assume a: "\<forall>k < length t. t ! k \<noteq> 1 \<longrightarrow> j ! (k + l) = i ! k"
    show "\<forall>k < n. k \<in> set (sum_axes t l) \<or> j ! k = (replicate l 0 @ i) ! k"
    proof (intro allI impI)
      fix k assume k: "k < n"
      show "k \<in> set (sum_axes t l) \<or> j ! k = (replicate l 0 @ i) ! k"
      proof (cases "k < l")
        case True
        then show ?thesis by (simp add: set_sum_axes)
      next
        case False
        define m where "m = k - l"
        have km: "k = m + l" and m: "m < length t" using False k le by (simp_all add: m_def l_def)
        show ?thesis
        proof (cases "t ! m = 1")
          case True
          with m show ?thesis by (auto simp: set_sum_axes km)
        next
          case f: False
          with a m have "j ! (m + l) = i ! m" by blast
          then show ?thesis using False by (simp add: nth_append km)
        qed
      qed
    qed
  qed
  also have "\<dots> \<longleftrightarrow> bidx t j = i"
    using bidx_eq_iff [OF i j le] by (simp add: l_def)
  finally show ?thesis by (simp add: l_def)
qed


lemma filter_nonlead: "l \<le> n \<Longrightarrow> filter (\<lambda>k. \<not> k < l) [0..<n] = [l..<n]"
proof -
  assume le: "l \<le> n"
  have "[0..<n] = [0..<l] @ [l..<n]" using le upt_add_eq_append [of 0 l "n - l"] by simp
  then show ?thesis by (simp add: filter_empty_conv)
qed

lemma map_nth_drop: "l \<le> length xs \<Longrightarrow> map ((!) xs) [l..<length xs] = drop l xs"
  by (rule nth_equalityI) simp_all

text \<open>
  \<^verbatim>\<open>sum_to\<close> computes the gradient of a broadcast: for a target shape that broadcasts to
  the shape of \<open>x\<close>, it returns, and its result is the buffer of shape \<open>t\<close> that holds at
  \<open>i\<close> the sum of \<open>x\<close> over the positions that read \<open>i\<close>.
\<close>

lemma sum_to_is_sum_over_broadcast:
  assumes bc: "np_broadcast_shapes t (shape x) = Some (shape x)"
  shows "sum_to x t = Inr (sum_over_broadcast x t)"
proof -
  let ?s = "shape x"
  define n where "n = length ?s"
  define l where "l = n - length t"
  define ks where "ks = sum_axes t l"
  have le: "length t \<le> n" using bshape_to_D(1) [OF bc] by (simp add: n_def)
  have ln: "l \<le> n" by (simp add: l_def)
  have axes: "map int [0..<nat (int n - int (length t))]
           @ map (\<lambda>(i, sx). int i + (int n - int (length t)))
               (filter (\<lambda>(i, sx). sx = 1) (zip [0..<length t] t)) = map int ks"
    using sum_to_axes [OF le] by (simp add: ks_def l_def)
  have inr: "\<forall>k \<in> set ks. k < n" using le by (auto simp: ks_def set_sum_axes l_def)
  have norm: "normalize_axes n (map int ks) = Inr ks"
    using distinct_sum_axes inr by (simp add: ks_def normalize_axes_nat)
  define F where "F = (\<lambda>i. sum_list (map (get x) (filter (agree_off ks n i) (indices ?s))))"
  define M where "M = map (\<lambda>k. if k \<in> set ks then 1 else ?s ! k) [0..<n]"
  have M: "M = replicate l 1 @ t"
    using mask_shape [OF bc] by (simp add: M_def ks_def l_def n_def)
  have sum: "np_sum_keepdims x (map int ks) = Inr (tabulate M F)"
    using norm by (simp add: np_sum_keepdims_def n_def [symmetric] M_def F_def)
  have flat: "flat (tabulate M F) = flat (sum_over_broadcast x t)"
  proof -
    have "flat (tabulate M F) = map (\<lambda>i. F (replicate l 0 @ i)) (indices t)"
      by (simp add: tabulate_def M indices_replicate_one comp_def)
    also have "\<dots> = map (\<lambda>i. sum_list (map (get x)
                          (filter (\<lambda>j. bidx t j = i) (indices ?s)))) (indices t)"
    proof (rule map_cong [OF refl])
      fix i assume i: "i \<in> set (indices t)"
      have "filter (agree_off ks n (replicate l 0 @ i)) (indices ?s)
              = filter (\<lambda>j. bidx t j = i) (indices ?s)"
      proof (rule filter_cong [OF refl])
        fix j assume "j \<in> set (indices ?s)"
        then have "length j = n" by (simp add: indices_length n_def)
        from agree_off_iff [OF i this le]
        show "agree_off ks n (replicate l 0 @ i) j = (bidx t j = i)"
          by (simp add: ks_def l_def)
      qed
      then show "F (replicate l 0 @ i)
            = sum_list (map (get x) (filter (\<lambda>j. bidx t j = i) (indices ?s)))"
        by (simp add: F_def)
    qed
    finally show ?thesis by (simp add: sum_over_broadcast_def tabulate_def)
  qed
  have res: "(if 0 < l then np_squeeze (tabulate M F) (map int [0..<l]) else Inr (tabulate M F))
               = Inr (sum_over_broadcast x t)"
  proof (cases "0 < l")
    case True
    have nl: "normalize_axes (length M) (map int [0..<l]) = Inr [0..<l]"
      using ln by (simp add: normalize_axes_nat M_def)
    have ones: "list_all (\<lambda>k. M ! k = 1) [0..<l]"
      by (simp add: list_all_iff M nth_append)
    have "length M = n" by (simp add: M_def)
    then have "map (\<lambda>k. M ! k) (filter (\<lambda>k. k \<notin> set [0..<l]) [0..<length M]) = drop l M"
      using ln map_nth_drop [of l M] by (simp add: filter_nonlead)
    also have "\<dots> = t" by (simp add: M)
    finally have shp: "map (\<lambda>k. M ! k) (filter (\<lambda>k. k \<notin> set [0..<l]) [0..<length M]) = t" .
    have "np_squeeze (tabulate M F) (map int [0..<l]) = Inr (NDArray t (flat (tabulate M F)))"
      using nl ones shp by (simp add: np_squeeze_def)
    also have "\<dots> = Inr (sum_over_broadcast x t)"
      using flat by (simp add: sum_over_broadcast_def tabulate_def)
    finally show ?thesis using True by simp
  next
    case False
    then have "M = t" using M by simp
    then have "tabulate M F = sum_over_broadcast x t"
      using flat by (simp add: sum_over_broadcast_def tabulate_def)
    with False show ?thesis by simp
  qed
  have lead: "int (length (shape x)) - int (length t) = int l"
    using le by (simp add: l_def n_def)
  show ?thesis
    unfolding sum_to_def Let_def n_def [symmetric]
    using axes sum res lead
    by (auto simp: n_def [symmetric] split: if_splits)
qed


lemma bshape_absorb:
  assumes "np_broadcast_shapes s0 s1 = Some s"
  shows "np_broadcast_shapes s0 s = Some s" and "np_broadcast_shapes s1 s = Some s"
proof -
  define n where "n = max (length s0) (length s1)"
  define p0 where "p0 = replicate (n - length s0) (1::nat) @ s0"
  define p1 where "p1 = replicate (n - length s1) (1::nat) @ s1"
  from assms have c: "list_all2 (\<lambda>a b. a = b \<or> a = 1 \<or> b = 1) p0 p1"
    and s: "s = map2 (\<lambda>a b. if a = 1 then b else a) p0 p1"
    by (auto simp: np_broadcast_shapes_def Let_def n_def p0_def p1_def split: if_splits)
  have l0: "length p0 = n" and l1: "length p1 = n" by (simp_all add: p0_def p1_def n_def)
  have ls: "length s = n" using s l0 l1 by simp
  have sk: "s ! k = (if p0 ! k = 1 then p1 ! k else p0 ! k)" if "k < n" for k
    using that s l0 l1 by simp
  have ck: "p0 ! k = p1 ! k \<or> p0 ! k = 1 \<or> p1 ! k = 1" if "k < n" for k
    using c that l0 by (auto simp: list_all2_conv_all_nth)
  have m0: "max (length s0) (length s) = n" and m1: "max (length s1) (length s) = n"
    using ls by (simp_all add: n_def)
  have c0: "p0 ! k = s ! k \<or> p0 ! k = 1 \<or> s ! k = 1" if "k < n" for k
    using sk [OF that] ck [OF that] by auto
  have e0: "(if p0 ! k = 1 then s ! k else p0 ! k) = s ! k" if "k < n" for k
    using sk [OF that] ck [OF that] by auto
  have c1: "p1 ! k = s ! k \<or> p1 ! k = 1 \<or> s ! k = 1" if "k < n" for k
    using sk [OF that] ck [OF that] by auto
  have e1: "(if p1 ! k = 1 then s ! k else p1 ! k) = s ! k" if "k < n" for k
    using sk [OF that] ck [OF that] by auto
  have "list_all2 (\<lambda>a b. a = b \<or> a = 1 \<or> b = 1) p0 s"
    using l0 ls c0 by (simp add: list_all2_conv_all_nth)
  moreover have "map2 (\<lambda>a b. if a = 1 then b else a) p0 s = s"
    using l0 ls e0 by (intro nth_equalityI) simp_all
  ultimately show "np_broadcast_shapes s0 s = Some s"
    using ls m0 by (simp add: np_broadcast_shapes_def Let_def p0_def)
  have "list_all2 (\<lambda>a b. a = b \<or> a = 1 \<or> b = 1) p1 s"
    using l1 ls c1 by (simp add: list_all2_conv_all_nth)
  moreover have "map2 (\<lambda>a b. if a = 1 then b else a) p1 s = s"
    using l1 ls e1 by (intro nth_equalityI) simp_all
  ultimately show "np_broadcast_shapes s1 s = Some s"
    using ls m1 by (simp add: np_broadcast_shapes_def Let_def p1_def)
qed

lemma filter_eq_single:
  "distinct xs \<Longrightarrow> i \<in> set xs \<Longrightarrow> filter (\<lambda>j. j = i) xs = [i]"
  by (induction xs) (auto simp: filter_empty_conv)

lemma sum_over_broadcast_same:
  assumes "wf_array g"
  shows "sum_over_broadcast g (shape g) = g"
proof -
  let ?s = "shape g"
  have "map (\<lambda>i. sum_list (map (get g) (filter (\<lambda>j. bidx ?s j = i) (indices ?s)))) (indices ?s)
      = map (\<lambda>i. get g i) (indices ?s)"
  proof (rule map_cong [OF refl])
    fix i assume i: "i \<in> set (indices ?s)"
    have "filter (\<lambda>j. bidx ?s j = i) (indices ?s) = filter (\<lambda>j. j = i) (indices ?s)"
      by (rule filter_cong [OF refl]) (simp add: bidx_same)
    also have "\<dots> = [i]" using distinct_indices i by (rule filter_eq_single)
    finally show "sum_list (map (get g) (filter (\<lambda>j. bidx ?s j = i) (indices ?s))) = get g i"
      by simp
  qed
  also have "\<dots> = flat g"
    using assms map_via_ravel [of "flat g" ?s "\<lambda>v. v"] by (simp add: get_def wf_array_def)
  finally show ?thesis by (cases g) (simp add: sum_over_broadcast_def tabulate_def)
qed

lemma add_run:
  assumes la: "length xs = prod_list s0" and lb: "length ys = prod_list s1"
    and eb: "enable_backprop s"
    and bc: "np_broadcast_shapes s0 s1 = Some sh"
  shows "\<exists>s' gx gy. then_backward (add_prog (NDArray s0 xs) (NDArray s1 ys)) False False s
            = Some (Inr (), s')
     \<and> x0_shape (funs s' (nfuns s)) = s0 \<and> x1_shape (funs s' (nfuns s)) = s1
     \<and> grad (vars s' (nvars s)) = Some gx \<and> grad (vars s' (Suc (nvars s))) = Some gy
     \<and> data (vars s' gx)
         = Some (sum_over_broadcast (NDArray sh (replicate (prod_list sh) 1)) s0)
     \<and> data (vars s' gy)
         = Some (sum_over_broadcast (NDArray sh (replicate (prod_list sh) 1)) s1)"
proof -
  let ?ones = "NDArray sh (replicate (prod_list sh) (1::'a))"
  have wf: "wf_array ?ones" by (simp add: wf_array_def)
  note b0 = bshape_absorb(1) [OF bc] and b1 = bshape_absorb(2) [OF bc]
  have st0: "sum_to ?ones s0 = Inr (sum_over_broadcast ?ones s0)"
    using b0 by (simp add: sum_to_is_sum_over_broadcast)
  have st1: "sum_to ?ones s1 = Inr (sum_over_broadcast ?ones s1)"
    using b1 by (simp add: sum_to_is_sum_over_broadcast)
  have same: "sum_over_broadcast ?ones sh = ?ones"
    using sum_over_broadcast_same [OF wf] by simp
  show ?thesis
  proof (cases "s0 = s1")
    case True
    with bc have "sh = s0" by (simp add: bshape_same)
    with True eb la lb same show ?thesis
      by (simp add: add_prog_def exec_defs backward_loop.simps np_binop_same_raw)
  next
    case False
    show ?thesis
    proof (cases "sh = s0")
      case True
      with False have ne: "s0 \<noteq> s1" "sh \<noteq> s1" by auto
      from True ne eb bc st1 same show ?thesis
        by (simp add: add_prog_def exec_defs backward_loop.simps np_binop_def tabulate_def
            length_indices Tensor_sum_to_def)
    next
      case f0: False
      show ?thesis
      proof (cases "sh = s1")
        case True
        from True False f0 eb bc st0 same show ?thesis
          by (simp add: add_prog_def exec_defs backward_loop.simps np_binop_def tabulate_def
              length_indices Tensor_sum_to_def)
      next
        case f1: False
        from False f0 f1 eb bc st0 st1 show ?thesis
          by (simp add: add_prog_def exec_defs backward_loop.simps np_binop_def tabulate_def
              length_indices Tensor_sum_to_def)
      qed
    qed
  qed
qed


lemma get_ones:
  "j \<in> set (indices sh) \<Longrightarrow> get (NDArray sh (replicate (prod_list sh) c)) j = c"
  by (simp add: get_def ravel_less)

lemma sum_list_const: "sum_list (map (\<lambda>_. c) xs) = of_nat (length xs) * (c :: 'a::comm_ring_1)"
  by (induction xs) (simp_all add: algebra_simps)

lemma shape_sum_over_broadcast [simp]: "shape (sum_over_broadcast g t) = t"
  by (simp add: sum_over_broadcast_def)

lemma get_sum_over_broadcast_ones:
  assumes "i \<in> set (indices t)"
  shows "get (sum_over_broadcast (NDArray sh (replicate (prod_list sh) (1 :: 'a::comm_ring_1))) t) i
           = of_nat (length (filter (\<lambda>j. bidx t j = i) (indices sh)))"
proof -
  let ?L = "filter (\<lambda>j. bidx t j = i) (indices sh)"
  have "map (get (NDArray sh (replicate (prod_list sh) (1 :: 'a)))) ?L = map (\<lambda>_. 1) ?L"
    by (rule map_cong [OF refl]) (simp add: get_ones)
  then have "sum_list (map (get (NDArray sh (replicate (prod_list sh) (1 :: 'a)))) ?L)
               = of_nat (length ?L)"
    by (simp only: sum_list_const) simp
  then show ?thesis
    using assms by (simp add: sum_over_broadcast_def get_tabulate)
qed

text \<open>
  C3. \<^verbatim>\<open>x = Variable(a); y = Variable(b); z = add(x, y); z.backward()\<close> for buffers whose
  shapes broadcast to \<open>sh\<close>, started in any store that records gradients. \<^verbatim>\<open>backward\<close>
  returns; the \<^verbatim>\<open>Add\<close> has recorded both operand shapes; the gradient of each input has
  that input's shape and holds, at every position, the elementwise gradient (a one for every
  position of the result) summed over the positions of the result that were broadcast from
  it. For equal shapes both gradients are \<^verbatim>\<open>ones_like(x.data)\<close>.
\<close>

theorem add_gradients_follow_broadcast:
  assumes "wf_array a" "wf_array b" "enable_backprop s"
    and "np_broadcast_shapes (shape a) (shape b) = Some sh"
  shows "\<exists>s' gx gy dx dy.
       then_backward (add_prog a b) False False s = Some (Inr (), s')
     \<and> x0_shape (funs s' (nfuns s)) = shape a \<and> x1_shape (funs s' (nfuns s)) = shape b
     \<and> grad (vars s' (nvars s)) = Some gx \<and> data (vars s' gx) = Some dx
     \<and> grad (vars s' (Suc (nvars s))) = Some gy \<and> data (vars s' gy) = Some dy
     \<and> dx = sum_over_broadcast (NDArray sh (replicate (prod_list sh) 1)) (shape a)
     \<and> dy = sum_over_broadcast (NDArray sh (replicate (prod_list sh) 1)) (shape b)
     \<and> shape dx = shape a \<and> shape dy = shape b
     \<and> (\<forall>i \<in> set (indices (shape a)).
           get dx i = of_nat (length (filter (\<lambda>j. bidx (shape a) j = i) (indices sh))))
     \<and> (\<forall>i \<in> set (indices (shape b)).
           get dy i = of_nat (length (filter (\<lambda>j. bidx (shape b) j = i) (indices sh))))
     \<and> (shape a = shape b \<longrightarrow> dx = np_ones_like (Some a) \<and> dy = np_ones_like (Some a))"
proof -
  obtain s0 xs where a: "a = NDArray s0 xs" by (cases a)
  obtain s1 ys where b: "b = NDArray s1 ys" by (cases b)
  from assms a b have la: "length xs = prod_list s0" and lb: "length ys = prod_list s1"
    and bc: "np_broadcast_shapes s0 s1 = Some sh"
    by (simp_all add: wf_array_def)
  let ?ones = "NDArray sh (replicate (prod_list sh) (1::'a))"
  from add_run [OF la lb assms(3) bc] obtain s' gx gy where
    run: "then_backward (add_prog a b) False False s = Some (Inr (), s')"
    and sh: "x0_shape (funs s' (nfuns s)) = s0" "x1_shape (funs s' (nfuns s)) = s1"
    and gx: "grad (vars s' (nvars s)) = Some gx"
      "data (vars s' gx) = Some (sum_over_broadcast ?ones s0)"
    and gy: "grad (vars s' (Suc (nvars s))) = Some gy"
      "data (vars s' gy) = Some (sum_over_broadcast ?ones s1)"
    unfolding a b by blast
  have eq: "sum_over_broadcast ?ones s0 = np_ones_like (Some a)
          \<and> sum_over_broadcast ?ones s1 = np_ones_like (Some a)" if "s0 = s1"
  proof -
    from that bc have "sh = s0" by (simp add: bshape_same)
    moreover have "wf_array ?ones" by (simp add: wf_array_def)
    ultimately show ?thesis
      using that sum_over_broadcast_same [of ?ones] la by (simp add: np_ones_like_def a)
  qed
  show ?thesis
    apply (rule exI [of _ s'], rule exI [of _ gx], rule exI [of _ gy])
    apply (rule exI [of _ "sum_over_broadcast ?ones s0"])
    apply (rule exI [of _ "sum_over_broadcast ?ones s1"])
    using run sh gx gy eq
    apply (simp add: a b get_sum_over_broadcast_ones)
    done
qed

lemma sum_over_broadcast_example:
  "sum_over_broadcast (NDArray [2, 3] (replicate (prod_list [2, 3]) (1 :: int))) [2, 1]
     = NDArray [2, 1] [3, 3]
   \<and> sum_over_broadcast (NDArray [2, 3] (replicate (prod_list [2, 3]) (1 :: int))) [3]
     = NDArray [3] [2, 2, 2]"
  by code_simp

theorem add_gradients_follow_broadcast_witness:
  "\<exists>s' gx gy.
       then_backward (add_prog (NDArray [2, 1] [10, 20 :: int]) (NDArray [3] [1, 2, 3]))
         False False init_state = Some (Inr (), s')
     \<and> grad (vars s' 0) = Some gx \<and> data (vars s' gx) = Some (NDArray [2, 1] [3, 3])
     \<and> grad (vars s' 1) = Some gy \<and> data (vars s' gy) = Some (NDArray [3] [2, 2, 2])"
proof -
  have w: "wf_array (NDArray [2, 1] [10, 20 :: int])" "wf_array (NDArray [3] [1, 2, 3 :: int])"
    "enable_backprop (init_state :: int state)"
    by (simp_all add: wf_array_def init_state_def)
  have bc: "np_broadcast_shapes (shape (NDArray [2, 1] [10, 20 :: int]))
              (shape (NDArray [3] [1, 2, 3 :: int])) = Some [2, 3]"
    by code_simp
  have n: "nvars (init_state :: int state) = 0" by (simp add: init_state_def)
  from add_gradients_follow_broadcast [OF w bc] sum_over_broadcast_example
  show ?thesis by (auto simp: n)
qed

section \<open>Differentiating the backward pass\<close>

lemma map2_map_map_same: "map2 f (map g xs) (map h xs) = map (\<lambda>v. f (g v) (h v)) xs"
  by (rule nth_equalityI) simp_all

lemma map2_map_left: "map2 f (map g xs) xs = map (\<lambda>v. f (g v) v) xs"
  by (rule nth_equalityI) simp_all

lemma sum_to_nil_raw:
  "\<exists>r. sum_to (NDArray sh zs) [] = Inr r"
  using sum_to_is_sum_over_broadcast [of "[]" "NDArray sh zs"] by (simp add: bshape_nil_left)

lemma cube_first:
  assumes len: "length xs = prod_list sh" and eb: "enable_backprop s"
  shows "\<exists>s2 gx. (case cube_prog (NDArray sh xs) s of (r, s1) \<Rightarrow>
               r = Inr (Suc (nvars s)) \<and> backward (Suc (nvars s)) False True s1 = Some (Inr (), s2))
     \<and> enable_backprop s2
     \<and> grad (vars s2 (nvars s)) = Some gx \<and> creator (vars s2 gx) \<noteq> None
     \<and> data (vars s2 gx) = Some (NDArray sh (map (\<lambda>v. 3 * v ^ 2) xs))"
  using assms
  by (simp add: cube_prog_def exec_defs backward_loop.simps np_binop_same_raw
        np_binop_scalar_raw map2_replicate_right)


lemma cube_second:
  assumes len: "length xs = prod_list sh" and eb: "enable_backprop s"
  shows "\<exists>s1 s2 gx s3 g2 s4 g3.
       cube_prog (NDArray sh xs) s = (Inr (Suc (nvars s)), s1)
     \<and> backward (Suc (nvars s)) False True s1 = Some (Inr (), s2)
     \<and> enable_backprop s2
     \<and> grad (vars s2 (nvars s)) = Some gx \<and> creator (vars s2 gx) \<noteq> None
     \<and> data (vars s2 gx) = Some (NDArray sh (map (\<lambda>v. 3 * v ^ 2) xs))
     \<and> backward gx False False (cleargrad (nvars s) s2) = Some (Inr (), s3)
     \<and> enable_backprop s3
     \<and> grad (vars s3 (nvars s)) = Some g2 \<and> creator (vars s3 g2) = None
     \<and> data (vars s3 g2) = Some (NDArray sh (map (\<lambda>v. 6 * v) xs))
     \<and> backward gx False False s2 = Some (Inr (), s4)
     \<and> grad (vars s4 (nvars s)) = Some g3
     \<and> data (vars s4 g3) = Some (NDArray sh (map (\<lambda>v. 3 * v ^ 2 + 6 * v) xs))"
proof (cases "sh = []")
  case True
  with len obtain v where v: "xs = [v]" by (cases xs) auto
  from True v eb show ?thesis
    by (simp add: cube_prog_def exec_defs backward_loop.simps np_binop_scalar_raw
        Tensor_sum_to_def algebra_simps)
next
  case False
  with assms show ?thesis
    by (simp add: cube_prog_def exec_defs backward_loop.simps np_binop_same_raw
        np_binop_scalar_raw map2_replicate_right map2_replicate_left map2_map_map_same
        map2_map_left Tensor_sum_to_def sum_to_is_sum_over_broadcast bshape_nil_left)
qed


lemma backward_step_restores_flag:
  "enable_backprop (snd (backward_step retain_grad create_graph f funcs seen_set s))
     = enable_backprop s"
  by (simp add: backward_step_def Let_def using_config_def getattr_Config_def
      setattr_Config_def split: prod.splits)

text \<open>
  C2. \<^verbatim>\<open>x = Variable(a); y = x ** 3; y.backward(create_graph=True)\<close>, started in any
  store that records gradients, returns with \<^verbatim>\<open>x.grad\<close> a Variable that has a creator
  and holds \<^verbatim>\<open>3 * x ** 2\<close>: every turn of the loop runs the backward rule with
  \<^verbatim>\<open>enable_backprop\<close> set to \<^verbatim>\<open>create_graph\<close> and restores the flag afterwards.
  \<^verbatim>\<open>gx = x.grad; x.cleargrad(); gx.backward()\<close> then returns with \<^verbatim>\<open>x.grad\<close> holding
  \<^verbatim>\<open>6 * x\<close>, and this time without creator. Without the \<^verbatim>\<open>cleargrad\<close> the same
  \<^verbatim>\<open>6 * x\<close> is added to the \<^verbatim>\<open>3 * x ** 2\<close> that \<^verbatim>\<open>x.grad\<close> still holds.
\<close>

theorem second_derivative_of_cube:
  assumes "wf_array a" "enable_backprop s"
  shows "\<exists>y s1 s2 gx d1 p s3 g2 d2 s4 g3 d3.
       cube_prog a s = (Inr y, s1)
     \<and> backward y False True s1 = Some (Inr (), s2)
     \<and> enable_backprop s2
     \<and> grad (vars s2 (nvars s)) = Some gx \<and> creator (vars s2 gx) \<noteq> None
     \<and> data (vars s2 gx) = Some d1
     \<and> np_pow a 2 = Inr p \<and> np_mul (np_scalar 3) p = Inr d1
     \<and> backward gx False False (cleargrad (nvars s) s2) = Some (Inr (), s3)
     \<and> enable_backprop s3
     \<and> grad (vars s3 (nvars s)) = Some g2 \<and> creator (vars s3 g2) = None
     \<and> data (vars s3 g2) = Some d2 \<and> np_mul (np_scalar 6) a = Inr d2
     \<and> backward gx False False s2 = Some (Inr (), s4)
     \<and> grad (vars s4 (nvars s)) = Some g3
     \<and> data (vars s4 g3) = Some d3 \<and> np_add d1 d2 = Inr d3
     \<and> enable_backprop (snd (backward_step rg cg f fs sn s0)) = enable_backprop s0"
proof (cases a)
  case (NDArray sh xs)
  with assms(1) have len: "length xs = prod_list sh" by (simp add: wf_array_def)
  have e1: "np_pow a 2 = Inr (NDArray sh (map (\<lambda>v. v ^ 2) xs))"
    using NDArray by (simp add: np_pow_def)
  have e2: "np_mul (np_scalar 3) (NDArray sh (map (\<lambda>v. v ^ 2) xs))
              = Inr (NDArray sh (map (\<lambda>v. 3 * v ^ 2) xs))"
    using len by (simp add: np_mul_def np_scalar_def np_binop_scalar_left_raw)
  have e3: "np_mul (np_scalar 6) a = Inr (NDArray sh (map (\<lambda>v. 6 * v) xs))"
    using len NDArray by (simp add: np_mul_def np_scalar_def np_binop_scalar_left_raw)
  have e4: "np_add (NDArray sh (map (\<lambda>v. 3 * v ^ 2) xs)) (NDArray sh (map (\<lambda>v. 6 * v) xs))
              = Inr (NDArray sh (map (\<lambda>v. 3 * v ^ 2 + 6 * v) xs))"
    using len by (simp add: np_add_def np_binop_same_raw map2_map_map_same)
  from cube_second [OF len assms(2)] e1 e2 e3 e4 backward_step_restores_flag [of rg cg f fs sn s0]
  show ?thesis unfolding NDArray by blast
qed

theorem second_derivative_of_cube_witness:
  "\<exists>s1 s2 gx s3 g2.
       cube_prog (np_scalar (2 :: int)) init_state = (Inr 1, s1)
     \<and> backward 1 False True s1 = Some (Inr (), s2)
     \<and> grad (vars s2 0) = Some gx \<and> creator (vars s2 gx) \<noteq> None
     \<and> data (vars s2 gx) = Some (np_scalar 12)
     \<and> backward gx False False (cleargrad 0 s2) = Some (Inr (), s3)
     \<and> grad (vars s3 0) = Some g2 \<and> data (vars s3 g2) = Some (np_scalar 12)"
proof -
  have w: "wf_array (np_scalar (2 :: int))" "enable_backprop (init_state :: int state)"
    by (simp_all add: wf_array_def np_scalar_def init_state_def)
  have n: "nvars (init_state :: int state) = 0" by (simp add: init_state_def)
  have y: "fst (cube_prog (np_scalar (2 :: int)) init_state) = Inr 1"
    by (simp add: cube_prog_def init_state_def exec_defs)
  have v: "np_pow (np_scalar (2 :: int)) 2 = Inr (np_scalar 4)"
    "np_mul (np_scalar 3) (np_scalar (4 :: int)) = Inr (np_scalar 12)"
    "np_mul (np_scalar 6) (np_scalar (2 :: int)) = Inr (np_scalar 12)"
    by (simp_all add: np_pow_def np_mul_def np_scalar_def np_binop_scalar_raw)
  from second_derivative_of_cube [OF w, where rg = False and cg = False and f = 0
      and fs = "[]" and sn = "{}" and ?s0.0 = "init_state :: int state"]
  obtain y s1 s2 gx d1 p s3 g2 d2 where
    c: "cube_prog (np_scalar (2 :: int)) init_state = (Inr y, s1)"
    and b1: "backward y False True s1 = Some (Inr (), s2)"
    and g: "grad (vars s2 0) = Some gx" "creator (vars s2 gx) \<noteq> None"
      "data (vars s2 gx) = Some d1"
    and d1: "np_pow (np_scalar (2 :: int)) 2 = Inr p" "np_mul (np_scalar 3) p = Inr d1"
    and b2: "backward gx False False (cleargrad 0 s2) = Some (Inr (), s3)"
    and g2: "grad (vars s3 0) = Some g2" "data (vars s3 g2) = Some d2"
      "np_mul (np_scalar 6) (np_scalar (2 :: int)) = Inr d2"
    unfolding n by blast
  from c y have "y = 1" by simp
  moreover from d1 v have "d1 = np_scalar 12" by simp
  moreover from g2 v have "d2 = np_scalar 12" by simp
  ultimately show ?thesis using c b1 g b2 g2 by blast
qed

end
